theory Spec2Isabelle
  imports Main "HOL-Library.Sublist"
begin

section \<open>Python strings\<close>

text \<open>
  A Python \<open>str\<close> is a sequence of Unicode code points. The model takes \<open>string\<close>
  (\<open>char list\<close>) and reads a \<open>char\<close> as the code point of the same number, so it
  covers exactly the strings whose code points are below 256 (ASCII and Latin-1);
  \<open>make_slugs\<close> is modelled a second time further down, for any string. On
  that range the tables below are those of CPython 3: \<open>str.isspace\<close>, \<open>str.lower\<close>,
  and the classes \<open>\s\<close> and \<open>\w\<close> of \<open>re\<close> for a \<open>str\<close> pattern. The range is closed
  under \<open>str.lower\<close>, and no character of it but an ASCII letter matches an ASCII
  letter under \<open>re.IGNORECASE\<close>.
\<close>

definition code_point :: "char \<Rightarrow> nat" where
  "code_point c = of_char c"

definition is_ascii :: "char \<Rightarrow> bool" where
  "is_ascii c = (code_point c < 128)"

definition is_space :: "char \<Rightarrow> bool" where
  \<comment> \<open>\<open>str.isspace\<close>, \<open>\s\<close>, and what \<open>str.strip()\<close> removes: TAB..CR, FS..US, space, NEL, NBSP.\<close>
  "is_space c =
     (let n = code_point c
      in (9 \<le> n \<and> n \<le> 13) \<or> (28 \<le> n \<and> n \<le> 32) \<or> n = 133 \<or> n = 160)"

definition is_digit :: "char \<Rightarrow> bool" where
  "is_digit c = (let n = code_point c in 48 \<le> n \<and> n \<le> 57)"

definition is_upper :: "char \<Rightarrow> bool" where
  \<comment> \<open>The characters \<open>str.lower\<close> changes: A..Z, and U+00C0..U+00DE without the
      multiplication sign U+00D7. Below U+0100 these are the uppercase letters
      (\<open>str.isupper\<close>); beyond, a letter can be uppercase and have no lowercase form.\<close>
  "is_upper c =
     (let n = code_point c
      in (65 \<le> n \<and> n \<le> 90) \<or> (192 \<le> n \<and> n \<le> 222 \<and> n \<noteq> 215))"

definition is_letter :: "char \<Rightarrow> bool" where
  \<comment> \<open>\<open>str.isalpha\<close>: the ASCII letters, the ordinal indicators U+00AA and U+00BA, the
      micro sign U+00B5, and U+00C0..U+00FF without U+00D7 and U+00F7.\<close>
  "is_letter c =
     (let n = code_point c
      in (65 \<le> n \<and> n \<le> 90) \<or> (97 \<le> n \<and> n \<le> 122) \<or> n = 170 \<or> n = 181 \<or> n = 186 \<or>
         (192 \<le> n \<and> n \<le> 255 \<and> n \<noteq> 215 \<and> n \<noteq> 247))"

definition is_word :: "char \<Rightarrow> bool" where
  \<comment> \<open>\<open>\w\<close>: \<open>str.isalnum\<close> or the underscore. Beyond letters and ASCII digits,
      \<open>isalnum\<close> holds of the superscripts U+00B2, U+00B3, U+00B9 and of the fractions
      U+00BC..U+00BE.\<close>
  "is_word c =
     (let n = code_point c
      in is_letter c \<or> is_digit c \<or> n = 95 \<or> n = 178 \<or> n = 179 \<or> n = 185 \<or>
         (188 \<le> n \<and> n \<le> 190))"

definition lower_char :: "char \<Rightarrow> char" where
  "lower_char c = (if is_upper c then char_of (code_point c + 32) else c)"

definition py_lower :: "string \<Rightarrow> string" where
  \<comment> \<open>\<open>s.lower()\<close>\<close>
  "py_lower s = map lower_char s"

definition py_strip :: "string \<Rightarrow> string" where
  \<comment> \<open>\<open>s.strip()\<close>: whitespace removed at both ends.\<close>
  "py_strip s = rev (dropWhile is_space (rev (dropWhile is_space s)))"

definition py_strip_chars :: "'a list \<Rightarrow> 'a list \<Rightarrow> 'a list" where
  \<comment> \<open>\<open>s.strip(chars)\<close>: the characters of \<open>chars\<close> removed at both ends.\<close>
  "py_strip_chars chars s =
     rev (dropWhile (\<lambda>c. c \<in> set chars) (rev (dropWhile (\<lambda>c. c \<in> set chars) s)))"

fun py_startswith :: "string \<Rightarrow> string \<Rightarrow> bool" where
  "py_startswith s [] = True"
| "py_startswith [] (p # ps) = False"
| "py_startswith (c # cs) (p # ps) = (c = p \<and> py_startswith cs ps)"

fun py_contains :: "string \<Rightarrow> string \<Rightarrow> bool" where
  \<comment> \<open>\<open>sub in s\<close>\<close>
  "py_contains sub [] = (sub = [])"
| "py_contains sub (c # cs) = (py_startswith (c # cs) sub \<or> py_contains sub cs)"

subsection \<open>\<open>re.sub\<close> for the three patterns of \<open>make_slugs\<close>\<close>

definition re_sub_delete :: "('a \<Rightarrow> bool) \<Rightarrow> 'a list \<Rightarrow> 'a list" where
  \<comment> \<open>\<open>re.sub(r"[...]", "", s)\<close> for a class of single characters given by \<open>P\<close>:
      every character of the class is deleted.\<close>
  "re_sub_delete P s = filter (\<lambda>c. \<not> P c) s"

function re_sub_runs :: "('a \<Rightarrow> bool) \<Rightarrow> 'a \<Rightarrow> 'a list \<Rightarrow> 'a list" where
  "re_sub_runs P r [] = []"
| "re_sub_runs P r (c # cs) =
     (if P c then r # re_sub_runs P r (dropWhile P cs) else c # re_sub_runs P r cs)"
  by pat_completeness auto
termination
  by (relation "measure (\<lambda>(P, r, s). length s)")
     (auto simp: length_dropWhile_le less_Suc_eq_le)

text \<open>
  \<open>re_sub_runs P r s\<close> is \<open>re.sub(r"X+", r, s)\<close> for a class \<open>X\<close> given by \<open>P\<close>: scanning
  from the left, a greedy match takes a maximal run of class characters, which is
  replaced by the one character \<open>r\<close>; the scan goes on after the run.
\<close>

definition slug_keep :: "char \<Rightarrow> bool" where
  \<comment> \<open>The class \<open>[\w\s-]\<close>; the pattern \<open>[^\w\s-]\<close> is its complement.\<close>
  "slug_keep c = (is_word c \<or> is_space c \<or> c = CHR ''-'')"

subsection \<open>\<open>urllib.parse.quote_plus\<close>\<close>

definition utf8_encode :: "char \<Rightarrow> nat list" where
  \<comment> \<open>The UTF-8 bytes of a code point below 256.\<close>
  "utf8_encode c =
     (let n = code_point c in if n < 128 then [n] else [192 + n div 64, 128 + n mod 64])"

definition always_safe :: "char \<Rightarrow> bool" where
  \<comment> \<open>\<open>_ALWAYS_SAFE\<close>: the ASCII letters and digits and \<open>_.-~\<close>.\<close>
  "always_safe c =
     (let n = code_point c
      in (65 \<le> n \<and> n \<le> 90) \<or> (97 \<le> n \<and> n \<le> 122) \<or> (48 \<le> n \<and> n \<le> 57) \<or>
         c = CHR ''_'' \<or> c = CHR ''.'' \<or> c = CHR ''-'' \<or> c = CHR ''~'')"

definition hex_digit :: "nat \<Rightarrow> char" where
  "hex_digit n = ''0123456789ABCDEF'' ! (n mod 16)"

definition quote_byte :: "string \<Rightarrow> nat \<Rightarrow> string" where
  \<comment> \<open>One byte in \<open>quote_from_bytes\<close>: kept when safe, else \<open>'%{:02X}'\<close>.\<close>
  "quote_byte safe b =
     (if b < 128 \<and> (always_safe (char_of b) \<or> char_of b \<in> set safe) then [char_of b]
      else [CHR ''%'', hex_digit (b div 16), hex_digit b])"

definition py_quote :: "string \<Rightarrow> string \<Rightarrow> string" where
  \<comment> \<open>\<open>quote(s, safe)\<close> with the default encoding UTF-8.\<close>
  "py_quote safe s = concat (map (quote_byte safe) (concat (map utf8_encode s)))"

definition quote_plus :: "string \<Rightarrow> string" where
  \<comment> \<open>\<open>quote_plus(s)\<close> with \<open>safe=''\<close>: without a space it is \<open>quote(s, '')\<close>; with one the
      space is made safe and then replaced by \<open>+\<close>.\<close>
  "quote_plus s =
     (if CHR '' '' \<notin> set s then py_quote [] s
      else map (\<lambda>c. if c = CHR '' '' then CHR ''+'' else c) (py_quote '' '' s))"

section \<open>Slugs and candidate URLs\<close>

text \<open>\<open>make_slugs\<close> and \<open>make_candidate_urls\<close> of \<open>app.py\<close> (lines 17 to 34).\<close>

definition app_make_slugs :: "string \<Rightarrow> string list" where
  "app_make_slugs animetitle =
     (let base = py_lower (py_strip animetitle);
          base = re_sub_delete (\<lambda>c. \<not> slug_keep c) base;
          base = re_sub_runs is_space CHR ''-'' base;
          base = re_sub_runs (\<lambda>c. c = CHR ''-'') CHR ''-'' base;
          base = py_strip_chars ''-'' base
      in [base, quote_plus base])"

definition app_make_candidate_urls :: "string \<Rightarrow> string \<Rightarrow> string \<Rightarrow> string list" where
  "app_make_candidate_urls slug season episode =
     [''https://animedekho.co/epi/'' @ slug @ ''-'' @ season @ ''x'' @ episode @ ''/'',
      ''https://animedekho.co/episodes/'' @ slug @ ''-'' @ season @ ''x'' @ episode @ ''/'',
      ''https://animedekho.co/epi/'' @ slug @ ''/'' @ season @ ''x'' @ episode @ ''/'',
      ''https://animedekho.co/episodes/'' @ slug @ ''/'' @ season @ ''x'' @ episode @ ''/'']"

text \<open>The same two functions of \<open>video.py\<close> (lines 14 to 31).\<close>

definition video_make_slugs :: "string \<Rightarrow> string list" where
  "video_make_slugs animetitle =
     (let base = py_lower (py_strip animetitle);
          base = re_sub_delete (\<lambda>c. \<not> slug_keep c) base;
          base = re_sub_runs is_space CHR ''-'' base;
          base = re_sub_runs (\<lambda>c. c = CHR ''-'') CHR ''-'' base;
          base = py_strip_chars ''-'' base
      in [base, quote_plus base])"

definition video_make_candidate_urls :: "string \<Rightarrow> string \<Rightarrow> string \<Rightarrow> string list" where
  "video_make_candidate_urls slug season episode =
     [''https://animedekho.co/epi/'' @ slug @ ''-'' @ season @ ''x'' @ episode @ ''/'',
      ''https://animedekho.co/episodes/'' @ slug @ ''-'' @ season @ ''x'' @ episode @ ''/'',
      ''https://animedekho.co/epi/'' @ slug @ ''/'' @ season @ ''x'' @ episode @ ''/'',
      ''https://animedekho.co/episodes/'' @ slug @ ''/'' @ season @ ''x'' @ episode @ ''/'']"

text \<open>
  The candidate list \<open>fetch_video_url\<close> builds first (\<open>app.py\<close> lines 50 to 53,
  \<open>video.py\<close> lines 47 to 50): the four URLs of each slug, in the order of the slugs.
\<close>

definition app_candidates :: "string \<Rightarrow> string \<Rightarrow> string \<Rightarrow> string list" where
  "app_candidates animetitle season episode =
     concat (map (\<lambda>s. app_make_candidate_urls s season episode) (app_make_slugs animetitle))"

definition video_candidates :: "string \<Rightarrow> string \<Rightarrow> string \<Rightarrow> string list" where
  "video_candidates animetitle season episode =
     concat (map (\<lambda>s. video_make_candidate_urls s season episode) (video_make_slugs animetitle))"

section \<open>Slugs of any string\<close>

text \<open>
  \<open>make_slugs\<close> once more, for a title of any code points: a string is now the list of
  its code points. Below U+0100 the tables are those above. Beyond, they are the
  Unicode tables of the Python that runs the program, which the repository does not
  hold; they are a parameter: \<open>str.lower\<close> of one character, which may depend on the
  text before and after it (the capital sigma) and may give several characters (the
  dotted capital I), \<open>str.isalnum\<close>, \<open>str.isspace\<close> and \<open>str.isupper\<close>.
\<close>

type_synonym ustring = "int list"

definition ustr :: "string \<Rightarrow> ustring" where
  \<comment> \<open>The Python string with the code points of an 8-bit string.\<close>
  "ustr s = map (\<lambda>c. int (code_point c)) s"

record unicode_tables =
  ucd_lower_at :: "ustring \<Rightarrow> int \<Rightarrow> ustring \<Rightarrow> ustring"
  ucd_alnum :: "int \<Rightarrow> bool"
  ucd_space :: "int \<Rightarrow> bool"
  ucd_upper :: "int \<Rightarrow> bool"

definition latin1 :: "int \<Rightarrow> bool" where
  "latin1 c = (0 \<le> c \<and> c < 256)"

definition u_is_space :: "unicode_tables \<Rightarrow> int \<Rightarrow> bool" where
  "u_is_space T c = (if latin1 c then is_space (char_of c) else ucd_space T c)"

definition u_is_alnum :: "unicode_tables \<Rightarrow> int \<Rightarrow> bool" where
  \<comment> \<open>\<open>str.isalnum\<close>: letters, digits and other numeric characters.\<close>
  "u_is_alnum T c =
     (if latin1 c then is_word (char_of c) \<and> c \<noteq> 95 else ucd_alnum T c)"

definition u_is_word :: "unicode_tables \<Rightarrow> int \<Rightarrow> bool" where
  \<comment> \<open>\<open>\w\<close>: \<open>str.isalnum\<close> or the underscore (95).\<close>
  "u_is_word T c = (u_is_alnum T c \<or> c = 95)"

definition u_is_upper :: "unicode_tables \<Rightarrow> int \<Rightarrow> bool" where
  \<comment> \<open>\<open>str.isupper\<close> of one character.\<close>
  "u_is_upper T c = (if latin1 c then is_upper (char_of c) else ucd_upper T c)"

definition u_lower_char :: "unicode_tables \<Rightarrow> ustring \<Rightarrow> int \<Rightarrow> ustring \<Rightarrow> ustring" where
  "u_lower_char T pre c post =
     (if latin1 c then [int (code_point (lower_char (char_of c)))]
      else ucd_lower_at T pre c post)"

fun u_lower_from :: "unicode_tables \<Rightarrow> ustring \<Rightarrow> ustring \<Rightarrow> ustring" where
  "u_lower_from T pre [] = []"
| "u_lower_from T pre (c # post) =
     u_lower_char T pre c post @ u_lower_from T (pre @ [c]) post"

definition u_lower :: "unicode_tables \<Rightarrow> ustring \<Rightarrow> ustring" where
  \<comment> \<open>\<open>s.lower()\<close>\<close>
  "u_lower T s = u_lower_from T [] s"

definition u_strip :: "unicode_tables \<Rightarrow> ustring \<Rightarrow> ustring" where
  \<comment> \<open>\<open>s.strip()\<close>\<close>
  "u_strip T s = rev (dropWhile (u_is_space T) (rev (dropWhile (u_is_space T) s)))"

definition u_slug_keep :: "unicode_tables \<Rightarrow> int \<Rightarrow> bool" where
  \<comment> \<open>The class \<open>[\w\s-]\<close>; 45 is the hyphen.\<close>
  "u_slug_keep T c = (u_is_word T c \<or> u_is_space T c \<or> c = 45)"

datatype encode_error = UnicodeEncodeError

definition u_utf8 :: "int \<Rightarrow> encode_error + int list" where
  \<comment> \<open>\<open>c.encode('utf-8')\<close> with \<open>errors='strict'\<close>: a surrogate cannot be encoded.\<close>
  "u_utf8 c =
     (if c < 0x80 then Inr [c]
      else if c < 0x800 then Inr [0xC0 + c div 64, 0x80 + c mod 64]
      else if 0xD800 \<le> c \<and> c \<le> 0xDFFF then Inl UnicodeEncodeError
      else if c < 0x10000 then
        Inr [0xE0 + c div 4096, 0x80 + (c div 64) mod 64, 0x80 + c mod 64]
      else Inr [0xF0 + c div 262144, 0x80 + (c div 4096) mod 64, 0x80 + (c div 64) mod 64,
                0x80 + c mod 64])"

fun u_encode :: "ustring \<Rightarrow> encode_error + int list" where
  "u_encode [] = Inr []"
| "u_encode (c # cs) =
     (case u_utf8 c of
        Inl e \<Rightarrow> Inl e
      | Inr bytes \<Rightarrow> (case u_encode cs of Inl e \<Rightarrow> Inl e | Inr rest \<Rightarrow> Inr (bytes @ rest)))"

definition u_quote :: "string \<Rightarrow> ustring \<Rightarrow> encode_error + ustring" where
  \<comment> \<open>\<open>quote(s, safe)\<close>: the bytes of the encoded string, each as \<open>quote_byte\<close> has it.\<close>
  "u_quote safe s =
     (case u_encode s of
        Inl e \<Rightarrow> Inl e
      | Inr bytes \<Rightarrow> Inr (concat (map (\<lambda>b. ustr (quote_byte safe (nat b))) bytes)))"

definition u_quote_plus :: "ustring \<Rightarrow> encode_error + ustring" where
  \<comment> \<open>\<open>quote_plus(s)\<close>; 32 is the space and 43 the plus sign.\<close>
  "u_quote_plus s =
     (if 32 \<notin> set s then u_quote [] s
      else (case u_quote '' '' s of
              Inl e \<Rightarrow> Inl e
            | Inr q \<Rightarrow> Inr (map (\<lambda>c. if c = 32 then 43 else c) q)))"

text \<open>
  \<open>make_slugs\<close> of \<open>app.py\<close> and of \<open>video.py\<close>: the list returned, or the exception that
  \<open>quote_plus\<close> raised.
\<close>

definition app_make_slugs_unicode ::
  "unicode_tables \<Rightarrow> ustring \<Rightarrow> encode_error + ustring list" where
  "app_make_slugs_unicode T animetitle =
     (let base = u_lower T (u_strip T animetitle);
          base = re_sub_delete (\<lambda>c. \<not> u_slug_keep T c) base;
          base = re_sub_runs (u_is_space T) 45 base;
          base = re_sub_runs (\<lambda>c. c = 45) 45 base;
          base = py_strip_chars (ustr ''-'') base
      in case u_quote_plus base of Inl e \<Rightarrow> Inl e | Inr quoted \<Rightarrow> Inr [base, quoted])"

definition video_make_slugs_unicode ::
  "unicode_tables \<Rightarrow> ustring \<Rightarrow> encode_error + ustring list" where
  "video_make_slugs_unicode T animetitle =
     (let base = u_lower T (u_strip T animetitle);
          base = re_sub_delete (\<lambda>c. \<not> u_slug_keep T c) base;
          base = re_sub_runs (u_is_space T) 45 base;
          base = re_sub_runs (\<lambda>c. c = 45) 45 base;
          base = py_strip_chars (ustr ''-'') base
      in case u_quote_plus base of Inl e \<Rightarrow> Inl e | Inr quoted \<Rightarrow> Inr [base, quoted])"

subsection \<open>What is said of a title and of a slug\<close>

definition title_char :: "unicode_tables \<Rightarrow> int \<Rightarrow> bool" where
  \<comment> \<open>A letter or a digit (both are among what \<open>str.isalnum\<close> accepts), a space or a
      hyphen.\<close>
  "title_char T c = (u_is_alnum T c \<or> c = 32 \<or> c = 45)"

definition no_uppercase :: "unicode_tables \<Rightarrow> ustring \<Rightarrow> bool" where
  "no_uppercase T s = list_all (\<lambda>c. \<not> u_is_upper T c) s"

definition no_whitespace :: "unicode_tables \<Rightarrow> ustring \<Rightarrow> bool" where
  "no_whitespace T s = list_all (\<lambda>c. \<not> u_is_space T c) s"

text \<open>
  A table that agrees with Unicode on the three characters of the examples below and
  says of every other character beyond U+00FF that it is nothing and that \<open>lower\<close>
  leaves it: U+210D, the double-struck capital H, an uppercase letter without a
  lowercase form; U+03A9, the capital omega, whose lowercase form is U+03C9; and
  U+03C9, the small omega.
\<close>

definition sample_tables :: unicode_tables where
  "sample_tables =
     \<lparr>ucd_lower_at = (\<lambda>pre c post. if c = 0x3A9 then [0x3C9] else [c]),
      ucd_alnum = (\<lambda>c. c = 0x210D \<or> c = 0x3A9 \<or> c = 0x3C9),
      ucd_space = (\<lambda>c. False),
      ucd_upper = (\<lambda>c. c = 0x210D \<or> c = 0x3A9)\<rparr>"

section \<open>The pattern \<open>VIDEO_RE\<close>\<close>

text \<open>
  \<open>re.compile(r"https://play\.zephyrflick\.top/video/[A-Za-z0-9\-_]+", re.IGNORECASE)\<close>:
  a literal, matched without regard to case, then one or more characters of a class,
  matched greedily. No backtracking is involved: the pattern matches at a position
  exactly when the literal does and a class character follows.
\<close>

definition video_literal :: string where
  "video_literal = ''https://play.zephyrflick.top/video/''"

definition video_id_char :: "char \<Rightarrow> bool" where
  \<comment> \<open>The class \<open>[A-Za-z0-9\-_]\<close>.\<close>
  "video_id_char c =
     (let n = code_point c
      in (65 \<le> n \<and> n \<le> 90) \<or> (97 \<le> n \<and> n \<le> 122) \<or> (48 \<le> n \<and> n \<le> 57) \<or>
         c = CHR ''-'' \<or> c = CHR ''_'')"

definition video_re_match :: "string \<Rightarrow> string option" where
  \<comment> \<open>The match that starts at the first character, if there is one: the text matched
      (\<open>match.group(0)\<close>), in the subject's own case.\<close>
  "video_re_match s =
     (let n = length video_literal;
          ident = takeWhile video_id_char (drop n s)
      in if py_lower (take n s) = video_literal \<and> ident \<noteq> [] then Some (take n s @ ident)
         else None)"

fun video_re_search :: "string \<Rightarrow> string option" where
  \<comment> \<open>\<open>VIDEO_RE.search(s)\<close>: the leftmost match; \<open>None\<close> when no position matches.\<close>
  "video_re_search [] = None"
| "video_re_search (c # cs) =
     (case video_re_match (c # cs) of Some m \<Rightarrow> Some m | None \<Rightarrow> video_re_search cs)"

section \<open>\<open>int(s)\<close> of a string\<close>

datatype py_exception = ValueError

definition int_space :: "char \<Rightarrow> bool" where
  \<comment> \<open>What \<open>int\<close> skips at both ends: TAB..CR and space, and NEL and NBSP, which it maps
      to a space first. FS..US are whitespace to \<open>str.strip\<close> but not here.\<close>
  "int_space c =
     (let n = code_point c in (9 \<le> n \<and> n \<le> 13) \<or> n = 32 \<or> n = 133 \<or> n = 160)"

definition digit_val :: "char \<Rightarrow> nat" where
  "digit_val c = code_point c - 48"

fun int_digits :: "string \<Rightarrow> nat list option" where
  \<comment> \<open>The digits of \<open>digit (_? digit)*\<close>; \<open>None\<close> for any other text.\<close>
  "int_digits [] = None"
| "int_digits [c] = (if is_digit c then Some [digit_val c] else None)"
| "int_digits (c # d # cs) =
     (if \<not> is_digit c then None
      else if d = CHR ''_'' then map_option (Cons (digit_val c)) (int_digits cs)
      else map_option (Cons (digit_val c)) (int_digits (d # cs)))"

definition int_max_str_digits :: nat where
  \<comment> \<open>\<open>sys.int_max_str_digits\<close>, by default (CPython 3.11 and later).\<close>
  "int_max_str_digits = 4300"

definition py_int :: "string \<Rightarrow> py_exception + int" where
  "py_int s =
     (let t = rev (dropWhile int_space (rev (dropWhile int_space s)));
          (negative, body) =
            (case t of
               [] \<Rightarrow> (False, t)
             | c # r \<Rightarrow> if c = CHR ''-'' then (True, r) else if c = CHR ''+'' then (False, r)
                        else (False, t))
      in case int_digits body of
           None \<Rightarrow> Inl ValueError
         | Some ds \<Rightarrow>
             if int_max_str_digits < length ds then Inl ValueError
             else let n = int (foldl (\<lambda>a d. 10 * a + d) 0 ds)
                  in Inr (if negative then - n else n))"

section \<open>The browser and the scan\<close>

text \<open>
  Playwright is the environment. Each call the code makes into it is a \<open>call\<close>; the
  environment answers with the URLs of the network requests the page issued while the
  call ran, in order, and with \<open>Some msg\<close> when the call raised an \<open>Exception\<close> whose
  \<open>str\<close> is \<open>msg\<close>. The environment has a state \<open>'w\<close> of its own, so the same call
  may be answered differently each time.
\<close>

datatype call =
    Sync_playwright_enter
  | Launch string bool
  | New_context string
  | New_page
  | Page_on_request
  | Goto string string int
  | Wait_for_timeout int
  | Context_close
  | Browser_close
  | Sync_playwright_exit

record reply =
  requests :: "string list"
  raised :: "string option"

type_synonym 'w browser = "'w \<Rightarrow> call \<Rightarrow> reply \<times> 'w"

text \<open>
  What a run does, in order: the entry into \<open>fetch_video_url\<close> with its arguments, the
  calls into Playwright, and the assignments \<open>found = match.group(0)\<close> of the
  request observer.
\<close>

datatype event =
    Fetch_video_url string string string
  | Playwright call
  | Captured string

text \<open>
  The variables of one invocation: the environment's state, the closure variable
  \<open>found\<close>, and whether \<open>on_request\<close> is registered on the page.
\<close>

record 'w session =
  world :: 'w
  found :: "string option"
  listening :: bool

definition truthy :: "string option \<Rightarrow> bool" where
  \<comment> \<open>\<open>if x:\<close> for \<open>x\<close> a string or \<open>None\<close>.\<close>
  "truthy x = (case x of None \<Rightarrow> False | Some v \<Rightarrow> v \<noteq> [])"

definition on_request :: "'w session \<Rightarrow> string \<Rightarrow> event list \<times> 'w session" where
  \<comment> \<open>The observer, and that it runs only while it is registered.\<close>
  "on_request s url =
     (if listening s then
        (case video_re_search url of
           None \<Rightarrow> ([], s)
         | Some m \<Rightarrow> ([Captured m], s\<lparr>found := Some m, listening := False\<rparr>))
      else ([], s))"

fun dispatch :: "string list \<Rightarrow> 'w session \<Rightarrow> event list \<times> 'w session" where
  "dispatch [] s = ([], s)"
| "dispatch (url # urls) s =
     (case on_request s url of
        (ev1, s1) \<Rightarrow> (case dispatch urls s1 of (ev2, s2) \<Rightarrow> (ev1 @ ev2, s2)))"

definition perform ::
  "'w browser \<Rightarrow> call \<Rightarrow> 'w session \<Rightarrow> string option \<times> event list \<times> 'w session" where
  \<comment> \<open>One call into Playwright: the requests issued meanwhile reach the observer, then
      the call returns or raises.\<close>
  "perform env c s =
     (case env (world s) c of
        (r, w) \<Rightarrow>
          (case dispatch (requests r) (s\<lparr>world := w\<rparr>) of
             (ev, s') \<Rightarrow> (raised r, Playwright c # ev, s')))"

definition and_then ::
  "string option \<times> event list \<times> 's \<Rightarrow> ('s \<Rightarrow> (string + 'a) \<times> event list \<times> 's) \<Rightarrow>
   (string + 'a) \<times> event list \<times> 's" where
  \<comment> \<open>Two statements in sequence: an exception of the first skips the second.\<close>
  "and_then r k =
     (case r of
        (Some e, ev, s) \<Rightarrow> (Inl e, ev, s)
      | (None, ev, s) \<Rightarrow> (case k s of (x, ev', s') \<Rightarrow> (x, ev @ ev', s')))"

definition try_navigate :: "'w browser \<Rightarrow> string \<Rightarrow> 'w session \<Rightarrow> event list \<times> 'w session" where
  \<comment> \<open>The \<open>try\<close> of the loop: \<open>goto\<close>, then \<open>wait_for_timeout\<close> unless \<open>goto\<close> raised; an
      exception of either is dropped and the loop goes on.\<close>
  "try_navigate env url s =
     (case perform env (Goto url ''domcontentloaded'' 20000) s of
        (Some e, ev1, s1) \<Rightarrow> (ev1, s1)
      | (None, ev1, s1) \<Rightarrow>
          (case perform env (Wait_for_timeout 3000) s1 of (_, ev2, s2) \<Rightarrow> (ev1 @ ev2, s2)))"

fun candidate_loop ::
  "'w browser \<Rightarrow> string list \<Rightarrow> 'w session \<Rightarrow> event list \<times> 'w session" where
  "candidate_loop env [] s = ([], s)"
| "candidate_loop env (url # rest) s =
     (if truthy (found s) then ([], s)
      else (case try_navigate env url s of
              (ev1, s1) \<Rightarrow>
                (case candidate_loop env rest s1 of (ev2, s2) \<Rightarrow> (ev1 @ ev2, s2))))"

record scan_result =
  success :: bool
  video_url :: "string option"
  error :: "string option"
  message :: string

text \<open>
  The dictionaries the code returns have the keys \<open>success\<close> and \<open>message\<close> and one of
  \<open>video_url\<close> and \<open>error\<close>; a key that is absent is \<open>None\<close> here.
\<close>

definition found_result :: "string \<Rightarrow> scan_result" where
  "found_result url =
     \<lparr>success = True, video_url = Some url, error = None,
      message = ''Video URL found successfully''\<rparr>"

definition not_found_result :: scan_result where
  "not_found_result =
     \<lparr>success = False, video_url = None,
      error = Some ''No video URL found. Try different season/episode numbers.'',
      message = ''No video URL found''\<rparr>"

definition error_result :: "string \<Rightarrow> scan_result" where
  "error_result e =
     \<lparr>success = False, video_url = None, error = Some (''An error occurred: '' @ e),
      message = ''Failed to fetch video URL''\<rparr>"

definition close_page ::
  "'w browser \<Rightarrow> 'w session \<Rightarrow> (string + scan_result) \<times> event list \<times> 'w session" where
  \<comment> \<open>After the loop: \<open>context.close()\<close>, \<open>browser.close()\<close>, and the dictionary returned.\<close>
  "close_page env s =
     and_then (perform env Context_close s) (\<lambda>s.
     and_then (perform env Browser_close s) (\<lambda>s.
       (Inr (case found s of
               None \<Rightarrow> not_found_result
             | Some url \<Rightarrow> if url \<noteq> [] then found_result url else not_found_result),
        [], s)))"

definition page_scan ::
  "'w browser \<Rightarrow> string \<Rightarrow> string \<Rightarrow> string list \<Rightarrow> 'w session \<Rightarrow>
   (string + scan_result) \<times> event list \<times> 'w session" where
  \<comment> \<open>The body of the \<open>with\<close> statement, for a browser engine and a user agent.\<close>
  "page_scan env engine user_agent candidates s =
     and_then (perform env (Launch engine True) s) (\<lambda>s.
     and_then (perform env (New_context user_agent) s) (\<lambda>s.
     and_then (perform env New_page s) (\<lambda>s.
     and_then (perform env Page_on_request (s\<lparr>found := None\<rparr>)) (\<lambda>s.
       (case candidate_loop env candidates (s\<lparr>listening := True\<rparr>) of
          (ev, s) \<Rightarrow> (case close_page env s of (x, ev', s') \<Rightarrow> (x, ev @ ev', s')))))))"

definition with_sync_playwright ::
  "'w browser \<Rightarrow> ('w session \<Rightarrow> (string + 'a) \<times> event list \<times> 'w session) \<Rightarrow> 'w session \<Rightarrow>
   (string + 'a) \<times> event list \<times> 'w session" where
  \<comment> \<open>\<open>with sync_playwright() as p: body\<close>. The exit runs however the body ends and
      suppresses nothing; an exception of the exit replaces the body's outcome.\<close>
  "with_sync_playwright env body s =
     (case perform env Sync_playwright_enter s of
        (Some e, ev, s1) \<Rightarrow> (Inl e, ev, s1)
      | (None, ev, s1) \<Rightarrow>
          (case body s1 of
             (x, ev2, s2) \<Rightarrow>
               (case perform env Sync_playwright_exit s2 of
                  (Some e, ev3, s3) \<Rightarrow> (Inl e, ev @ ev2 @ ev3, s3)
                | (None, ev3, s3) \<Rightarrow> (x, ev @ ev2 @ ev3, s3))))"

text \<open>
  \<open>fetch_video_url\<close> of \<open>app.py\<close> (lines 36 to 107), in two parts: what stands inside the
  \<open>try\<close>, whose outcome is the dictionary returned or the exception raised
  (\<open>Inl\<close> of its \<open>str\<close>), and the function with its \<open>except Exception\<close>.
\<close>

definition app_user_agent :: string where
  "app_user_agent =
     ''Mozilla/5.0 (Windows NT 10.0; Win64; x64; rv:91.0) Gecko/20100101 Firefox/91.0''"

definition app_scan ::
  "'w browser \<Rightarrow> string \<Rightarrow> string \<Rightarrow> string \<Rightarrow> 'w \<Rightarrow> (string + scan_result) \<times> event list \<times> 'w" where
  "app_scan env animetitle season episode w =
     (let candidates = app_candidates animetitle season episode
      in case with_sync_playwright env (page_scan env ''firefox'' app_user_agent candidates)
                \<lparr>world = w, found = None, listening = False\<rparr> of
           (x, ev, s) \<Rightarrow> (x, ev, world s))"

definition app_fetch_video_url ::
  "'w browser \<Rightarrow> string \<Rightarrow> string \<Rightarrow> string \<Rightarrow> 'w \<Rightarrow> scan_result \<times> event list \<times> 'w" where
  "app_fetch_video_url env animetitle season episode w =
     (case app_scan env animetitle season episode w of
        (Inr result, ev, w') \<Rightarrow> (result, Fetch_video_url animetitle season episode # ev, w')
      | (Inl e, ev, w') \<Rightarrow>
          (error_result e, Fetch_video_url animetitle season episode # ev, w'))"

text \<open>\<open>fetch_video_url\<close> of \<open>video.py\<close> (lines 33 to 103): Chromium and another user agent.\<close>

definition video_user_agent :: string where
  "video_user_agent = ''Mozilla/5.0 (Windows NT 10.0; Win64; x64)''"

definition video_scan ::
  "'w browser \<Rightarrow> string \<Rightarrow> string \<Rightarrow> string \<Rightarrow> 'w \<Rightarrow> (string + scan_result) \<times> event list \<times> 'w" where
  "video_scan env animetitle season episode w =
     (let candidates = video_candidates animetitle season episode
      in case with_sync_playwright env (page_scan env ''chromium'' video_user_agent candidates)
                \<lparr>world = w, found = None, listening = False\<rparr> of
           (x, ev, s) \<Rightarrow> (x, ev, world s))"

definition video_fetch_video_url ::
  "'w browser \<Rightarrow> string \<Rightarrow> string \<Rightarrow> string \<Rightarrow> 'w \<Rightarrow> scan_result \<times> event list \<times> 'w" where
  "video_fetch_video_url env animetitle season episode w =
     (case video_scan env animetitle season episode w of
        (Inr result, ev, w') \<Rightarrow> (result, Fetch_video_url animetitle season episode # ev, w')
      | (Inl e, ev, w') \<Rightarrow>
          (error_result e, Fetch_video_url animetitle season episode # ev, w'))"

section \<open>The endpoint \<open>/api/video\<close>\<close>

text \<open>
  \<open>get_video_url\<close> of \<open>app.py\<close> (lines 110 to 153). \<open>args\<close> is \<open>request.args\<close>:
  \<open>args k\<close> is \<open>request.args.get(k)\<close>. The answer is the dictionary given to
  \<open>jsonify\<close> and the status code.
\<close>

definition missing_parameters :: scan_result where
  "missing_parameters =
     \<lparr>success = False, video_url = None,
      error = Some ''Missing required parameters: title, season, episode'',
      message = ''Please provide title, season, and episode as query parameters''\<rparr>"

definition invalid_number :: scan_result where
  "invalid_number =
     \<lparr>success = False, video_url = None,
      error = Some ''Invalid season or episode number'',
      message = ''Season and episode must be valid numbers''\<rparr>"

definition get_video_url ::
  "'w browser \<Rightarrow> (string \<rightharpoonup> string) \<Rightarrow> 'w \<Rightarrow> (scan_result \<times> int) \<times> event list \<times> 'w" where
  "get_video_url env args w =
     (let animetitle = args ''title''; season = args ''season''; episode = args ''episode''
      in if \<not> truthy animetitle \<or> \<not> truthy season \<or> \<not> truthy episode
         then ((missing_parameters, 400), [], w)
         else
           (case (animetitle, season, episode) of
              (Some t, Some s, Some e) \<Rightarrow>
                (case py_int s of
                   Inl ValueError \<Rightarrow> ((invalid_number, 400), [], w)
                 | Inr _ \<Rightarrow>
                     (case py_int e of
                        Inl ValueError \<Rightarrow> ((invalid_number, 400), [], w)
                      | Inr _ \<Rightarrow>
                          (case app_fetch_video_url env t s e w of
                             (result, ev, w') \<Rightarrow>
                               if success result then ((result, 200), ev, w')
                               else ((result,
                                      if py_contains ''No video URL found''
                                           (case error result of None \<Rightarrow> [] | Some m \<Rightarrow> m)
                                      then 404 else 500), ev, w'))))
            | _ \<Rightarrow> ((missing_parameters, 400), [], w)))"

definition passes_validation ::
  "(string \<rightharpoonup> string) \<Rightarrow> string \<Rightarrow> string \<Rightarrow> string \<Rightarrow> bool" where
  \<comment> \<open>The request carries the title \<open>t\<close>, the season \<open>s\<close> and the episode \<open>e\<close>, and
      \<open>get_video_url\<close> lets them through to \<open>fetch_video_url\<close>.\<close>
  "passes_validation args t s e =
     (args ''title'' = Some t \<and> args ''season'' = Some s \<and> args ''episode'' = Some e \<and>
      t \<noteq> [] \<and> py_int s \<noteq> Inl ValueError \<and> py_int e \<noteq> Inl ValueError)"

subsection \<open>Reading a run\<close>

fun navigated :: "event list \<Rightarrow> string list" where
  \<comment> \<open>The URLs the page was sent to, in order.\<close>
  "navigated [] = []"
| "navigated (Playwright (Goto url _ _) # ev) = url # navigated ev"
| "navigated (_ # ev) = navigated ev"

fun captured :: "event list \<Rightarrow> bool" where
  \<comment> \<open>Whether the observer captured a match.\<close>
  "captured [] = False"
| "captured (Captured _ # ev) = True"
| "captured (_ # ev) = captured ev"

fun halts_on_capture :: "event list \<Rightarrow> bool" where
  \<comment> \<open>No navigation comes after a capture.\<close>
  "halts_on_capture [] = True"
| "halts_on_capture (Captured m # ev) = (navigated ev = [])"
| "halts_on_capture (e # ev) = halts_on_capture ev"

definition step_ok :: "event list \<Rightarrow> 'w session \<Rightarrow> 'w session \<Rightarrow> bool" where
  \<comment> \<open>How the events of a piece of the scan relate the session before it to the session
      after it: the invariant of the proofs below.\<close>
  "step_ok ev s s' =
     (halts_on_capture ev \<and> (captured ev \<longrightarrow> truthy (found s')) \<and>
      (\<not> captured ev \<longrightarrow> found s' = found s \<and> listening s' = listening s) \<and>
      (\<not> listening s \<longrightarrow> \<not> captured ev))"

subsection \<open>Example environments\<close>

text \<open>
  Three browsers whose state counts the navigations so far. On \<open>match_after k\<close> every
  page loads, and the player's request is issued during the wait after the \<open>k\<close>-th
  navigation. On \<open>plain_site\<close> every page loads and requests its icon, never a video.
  On \<open>launch_fails msg\<close> the launch of the browser raises \<open>msg\<close>.
\<close>

definition quiet :: reply where
  "quiet = \<lparr>requests = [], raised = None\<rparr>"

definition match_after :: "nat \<Rightarrow> nat browser" where
  "match_after k w c =
     (case c of
        Goto url _ _ \<Rightarrow> (quiet, Suc w)
      | Wait_for_timeout _ \<Rightarrow>
          (\<lparr>requests =
              (if w = k then [''https://play.zephyrflick.top/video/a1B2-c3_d4?autoplay=1'']
               else []),
            raised = None\<rparr>, w)
      | _ \<Rightarrow> (quiet, w))"

definition plain_site :: "nat browser" where
  "plain_site w c =
     (case c of
        Goto url _ _ \<Rightarrow> (\<lparr>requests = [''/favicon.ico''], raised = None\<rparr>, Suc w)
      | _ \<Rightarrow> (quiet, w))"

definition launch_fails :: "string \<Rightarrow> nat browser" where
  "launch_fails msg w c =
     (case c of
        Launch _ _ \<Rightarrow> (\<lparr>requests = [], raised = Some msg\<rparr>, w)
      | _ \<Rightarrow> (quiet, w))"

text \<open>
  The first line of what \<open>p.firefox.launch\<close> raises when Playwright's browser
  directory (\<open>PLAYWRIGHT_BROWSERS_PATH\<close>) is \<open>/srv/No video URL found\<close> and holds no
  Firefox: the text names the path of the executable.
\<close>

definition missing_browser :: string where
  "missing_browser =
     ''BrowserType.launch: Executable doesn't exist at '' @
     ''/srv/No video URL found/firefox-1429/firefox/firefox''"

text \<open>
  The events of a run in which no call raises: the calls before the loop, the calls of
  the navigations during which nothing is captured, and the calls after the loop.
\<close>

definition prologue :: "string \<Rightarrow> string \<Rightarrow> event list" where
  "prologue engine user_agent =
     [Playwright Sync_playwright_enter, Playwright (Launch engine True),
      Playwright (New_context user_agent), Playwright New_page, Playwright Page_on_request]"

definition visits :: "string list \<Rightarrow> event list" where
  "visits urls =
     concat (map (\<lambda>url. [Playwright (Goto url ''domcontentloaded'' 20000),
                          Playwright (Wait_for_timeout 3000)]) urls)"

definition epilogue :: "event list" where
  "epilogue = [Playwright Context_close, Playwright Browser_close, Playwright Sync_playwright_exit]"

definition naruto_request :: "string \<rightharpoonup> string" where
  \<comment> \<open>\<open>/api/video?title=Naruto&season=1&episode=5\<close>\<close>
  "naruto_request = [''title'' \<mapsto> ''Naruto'', ''season'' \<mapsto> ''1'', ''episode'' \<mapsto> ''5'']"

section \<open>Characters and slugs\<close>

lemma code_point_char_of: "code_point (char_of (n::nat)) = n mod 256"
  by (simp add: code_point_def)

lemma last_dropWhile: "dropWhile P xs \<noteq> [] \<Longrightarrow> last (dropWhile P xs) = last xs"
  by (induction xs) (auto split: if_splits)

lemma strip_ends:
  assumes "rev (dropWhile P (rev (dropWhile P s))) = r" and "r \<noteq> []"
  shows "\<not> P (hd r) \<and> \<not> P (last r)"
proof -
  define ys where "ys = dropWhile P s"
  define zs where "zs = dropWhile P (rev ys)"
  have r: "r = rev zs" using assms(1) by (simp add: ys_def zs_def)
  with assms(2) have zs: "zs \<noteq> []" by simp
  then have ys: "ys \<noteq> []" unfolding zs_def by auto
  have "\<not> P (hd zs)" using zs unfolding zs_def by (rule hd_dropWhile)
  then have l: "\<not> P (last r)" using zs r by (simp add: last_rev)
  have "last zs = last (rev ys)" using zs unfolding zs_def by (rule last_dropWhile)
  then have "hd r = hd ys" using zs ys r by (simp add: hd_rev last_rev)
  moreover have "\<not> P (hd ys)" using ys unfolding ys_def by (rule hd_dropWhile)
  ultimately show ?thesis using l by simp
qed

lemma strip_chars_ends: "\<not> prefix [c] (py_strip_chars [c] s) \<and> \<not> suffix [c] (py_strip_chars [c] s)"
proof (cases "py_strip_chars [c] s = []")
  case True
  then show ?thesis by simp
next
  case False
  define r where "r = py_strip_chars [c] s"
  have "\<not> (hd r \<in> set [c]) \<and> \<not> (last r \<in> set [c])"
    using False by (intro strip_ends[where s = s]) (simp_all add: r_def py_strip_chars_def)
  then have h: "hd r \<noteq> c" and l: "last r \<noteq> c" by simp_all
  have "\<not> prefix [c] r" using h by (auto simp: prefix_def)
  moreover have "\<not> suffix [c] r" using l by (auto simp: suffix_def)
  ultimately show ?thesis by (simp add: r_def)
qed


lemma lower_char_not_upper: "\<not> is_upper (lower_char c)"
  unfolding lower_char_def is_upper_def Let_def
  by (auto simp: code_point_char_of)

lemma set_re_sub_runs: "set (re_sub_runs P r s) \<subseteq> insert r (set s)"
proof (induction P r s rule: re_sub_runs.induct)
  case (1 P r)
  then show ?case by simp
next
  case (2 P r c cs)
  have "set (dropWhile P cs) \<subseteq> set cs" by (simp add: set_dropWhileD subsetI)
  with 2 show ?case by auto
qed

lemma re_sub_runs_none: "\<not> P r \<Longrightarrow> c \<in> set (re_sub_runs P r s) \<Longrightarrow> \<not> P c"
  by (induction P r s rule: re_sub_runs.induct) (auto split: if_splits)

lemma set_strip_chars: "set (py_strip_chars cs s) \<subseteq> set s"
  unfolding py_strip_chars_def by (auto dest!: set_dropWhileD)

lemma set_strip: "set (py_strip s) \<subseteq> set s"
  unfolding py_strip_def by (auto dest!: set_dropWhileD)

lemma hyphen_not_space: "\<not> is_space CHR ''-''"
  by (simp add: is_space_def code_point_def)

lemma slug_chars:
  assumes "c \<in> set (app_make_slugs t ! 0)"
  shows "c = CHR ''-'' \<or> (\<exists>d\<in>set t. c = lower_char d \<and> slug_keep c \<and> \<not> is_space c)"
proof -
  define b0 where "b0 = py_lower (py_strip t)"
  define b1 where "b1 = re_sub_delete (\<lambda>c. \<not> slug_keep c) b0"
  define b2 where "b2 = re_sub_runs is_space CHR ''-'' b1"
  define b3 where "b3 = re_sub_runs (\<lambda>c. c = CHR ''-'') CHR ''-'' b2"
  from assms have "c \<in> set (py_strip_chars ''-'' b3)"
    by (simp add: app_make_slugs_def Let_def b0_def b1_def b2_def b3_def)
  then have "c \<in> set b3" by (rule set_strip_chars[THEN subsetD])
  then have "c \<in> insert CHR ''-'' (set b2)"
    unfolding b3_def by (rule set_re_sub_runs[THEN subsetD])
  then have "c = CHR ''-'' \<or> c \<in> set b2" by simp
  then show ?thesis
  proof
    assume "c = CHR ''-''"
    then show ?thesis by simp
  next
    assume c2: "c \<in> set b2"
    have ns: "\<not> is_space c"
      using hyphen_not_space c2 unfolding b2_def by (rule re_sub_runs_none)
    from c2 have "c \<in> insert CHR ''-'' (set b1)"
      unfolding b2_def by (rule set_re_sub_runs[THEN subsetD])
    then have "c = CHR ''-'' \<or> c \<in> set b1" by simp
    then show ?thesis
    proof
      assume "c = CHR ''-''"
      then show ?thesis by simp
    next
      assume "c \<in> set b1"
      then have k: "slug_keep c" and "c \<in> set b0" by (simp_all add: b1_def re_sub_delete_def)
      then obtain d where d: "d \<in> set (py_strip t)" and c: "c = lower_char d"
        by (auto simp: b0_def py_lower_def)
      from d have "d \<in> set t" by (rule set_strip[THEN subsetD])
      with c k ns show ?thesis by blast
    qed
  qed
qed

lemma char_codes:
  "(c = CHR ''_'') = (of_char c = (95::nat))"
  "(c = CHR ''-'') = (of_char c = (45::nat))"
  "(c = CHR ''.'') = (of_char c = (46::nat))"
  "(c = CHR ''~'') = (of_char c = (126::nat))"
proof -
  have "of_char CHR ''_'' = (95::nat)" "of_char CHR ''-'' = (45::nat)"
    "of_char CHR ''.'' = (46::nat)" "of_char CHR ''~'' = (126::nat)" by simp_all
  then show "(c = CHR ''_'') = (of_char c = (95::nat))"
    "(c = CHR ''-'') = (of_char c = (45::nat))"
    "(c = CHR ''.'') = (of_char c = (46::nat))"
    "(c = CHR ''~'') = (of_char c = (126::nat))"
    by (metis of_char_eq_iff)+
qed

lemma ascii_slug_char:
  assumes "is_ascii d" and "slug_keep (lower_char d)" and "\<not> is_space (lower_char d)"
  shows "always_safe (lower_char d) \<and> is_ascii (lower_char d)"
proof -
  have up: "\<not> is_upper (lower_char d)" by (rule lower_char_not_upper)
  have asc: "is_ascii (lower_char d)"
    using assms(1) unfolding lower_char_def is_ascii_def is_upper_def Let_def
    by (auto simp: code_point_char_of)
  have "always_safe (lower_char d)"
    using assms(2,3) up asc
    unfolding slug_keep_def is_word_def is_letter_def is_digit_def is_upper_def is_ascii_def
      always_safe_def Let_def
    by (auto simp: code_point_def char_codes)
  with asc show ?thesis by simp
qed

lemma quote_safe:
  assumes "\<forall>c\<in>set s. always_safe c \<and> is_ascii c"
  shows "py_quote [] s = s"
  using assms unfolding py_quote_def
  by (induction s) (auto simp: utf8_encode_def quote_byte_def is_ascii_def code_point_def)

lemma space_not_safe: "\<not> always_safe CHR '' ''"
  by (simp add: always_safe_def code_point_def)

lemma quote_plus_safe:
  assumes "\<forall>c\<in>set s. always_safe c \<and> is_ascii c"
  shows "quote_plus s = s"
proof -
  have "CHR '' '' \<notin> set s" using assms space_not_safe by blast
  then show ?thesis using quote_safe[OF assms] by (simp add: quote_plus_def)
qed

lemma hyphen_safe: "always_safe CHR ''-'' \<and> is_ascii CHR ''-''"
  by (simp add: always_safe_def is_ascii_def code_point_def)

lemma ascii_slug_quote:
  assumes "\<forall>c\<in>set t. is_ascii c"
  shows "quote_plus (app_make_slugs t ! 0) = app_make_slugs t ! 0"
proof (rule quote_plus_safe, rule ballI)
  fix c assume "c \<in> set (app_make_slugs t ! 0)"
  from slug_chars[OF this] show "always_safe c \<and> is_ascii c"
    using assms ascii_slug_char hyphen_safe by blast
qed

lemma app_make_slugs_eq:
  "app_make_slugs t = [app_make_slugs t ! 0, quote_plus (app_make_slugs t ! 0)]"
  by (simp add: app_make_slugs_def Let_def)

lemma video_slugs_same: "video_make_slugs t = app_make_slugs t"
  by (simp add: video_make_slugs_def app_make_slugs_def)

lemma app_candidates_double:
  assumes "\<forall>c\<in>set t. is_ascii c"
  shows "app_candidates t s e =
           app_make_candidate_urls (app_make_slugs t ! 0) s e @
           app_make_candidate_urls (app_make_slugs t ! 0) s e"
proof -
  have "app_make_slugs t = [app_make_slugs t ! 0, app_make_slugs t ! 0]"
    using app_make_slugs_eq[of t] ascii_slug_quote[OF assms] by simp
  then have "app_candidates t s e =
      concat (map (\<lambda>b. app_make_candidate_urls b s e) [app_make_slugs t ! 0, app_make_slugs t ! 0])"
    unfolding app_candidates_def by simp
  then show ?thesis by simp
qed

text \<open>
  Claim C9. For an ASCII title the two elements of \<open>make_slugs(title)\<close> are the same
  string, since the hyphenated slug has only characters that \<open>quote_plus\<close> keeps. The
  eight candidates of \<open>fetch_video_url\<close> are then the four URLs of that slug, twice
  over, so at most four of them are distinct.
\<close>

theorem ascii_slugs_coincide:
  assumes "\<forall>c\<in>set title. is_ascii c"
  shows "length (app_make_slugs title) = 2 \<and>
         app_make_slugs title ! 0 = app_make_slugs title ! 1 \<and>
         (\<exists>urls. length urls = 4 \<and> app_candidates title season episode = urls @ urls) \<and>
         card (set (app_candidates title season episode)) \<le> 4"
proof -
  let ?urls = "app_make_candidate_urls (app_make_slugs title ! 0) season episode"
  have l: "length (app_make_slugs title) = 2" by (simp add: app_make_slugs_def Let_def)
  have "app_make_slugs title ! 1 = quote_plus (app_make_slugs title ! 0)"
    by (simp add: app_make_slugs_def Let_def)
  with ascii_slug_quote[OF assms] have e: "app_make_slugs title ! 0 = app_make_slugs title ! 1"
    by simp
  have d: "app_candidates title season episode = ?urls @ ?urls"
    by (rule app_candidates_double[OF assms])
  have n: "length ?urls = 4" by (simp add: app_make_candidate_urls_def)
  have "card (set (?urls @ ?urls)) \<le> length ?urls"
    using card_length[of ?urls] by simp
  with d n have c: "card (set (app_candidates title season episode)) \<le> 4" by simp
  from l e d n c show ?thesis by blast
qed

text \<open>The title \<open>"Shinchan!! 2024"\<close> is ASCII; both of its slugs are \<open>shinchan-2024\<close>.\<close>

theorem ascii_slugs_coincide_witness:
  "list_all is_ascii ''Shinchan!! 2024'' \<and>
   app_make_slugs ''Shinchan!! 2024'' = [''shinchan-2024'', ''shinchan-2024''] \<and>
   app_make_slugs ''Shinchan!! 2024'' ! 0 = app_make_slugs ''Shinchan!! 2024'' ! 1 \<and>
   card (set (app_candidates ''Shinchan!! 2024'' ''1'' ''5'')) \<le> 4"
proof -
  have h: "\<forall>c\<in>set ''Shinchan!! 2024''. is_ascii c" by code_simp
  have a: "app_make_slugs ''Shinchan!! 2024'' = [''shinchan-2024'', ''shinchan-2024'']"
    by code_simp
  from ascii_slugs_coincide[OF h, of "''1''" "''5''"] a h show ?thesis
    unfolding list_all_iff by blast
qed

text \<open>
  Extra X1. The two examples of the specification: \<open>make_slugs("Shinchan!! 2024")\<close> is
  \<open>["shinchan-2024", "shinchan-2024"]\<close>, and the hyphenated slug of \<open>"One  Piece"\<close> is
  \<open>one-piece\<close>.
\<close>

theorem slug_examples:
  "app_make_slugs ''Shinchan!! 2024'' = [''shinchan-2024'', ''shinchan-2024''] \<and>
   app_make_slugs ''One  Piece'' ! 0 = ''one-piece''"
  by code_simp

text \<open>
  Claim C8. The two files define the same helpers: \<open>make_slugs\<close> of \<open>app.py\<close> and of
  \<open>video.py\<close> are the same function, and so are the two \<open>make_candidate_urls\<close>.
\<close>

theorem helpers_agree:
  "app_make_slugs = video_make_slugs \<and> app_make_candidate_urls = video_make_candidate_urls"
  by (intro conjI ext)
     (simp_all add: app_make_slugs_def video_make_slugs_def app_make_candidate_urls_def
        video_make_candidate_urls_def)

text \<open>
  Claim C5. \<open>make_candidate_urls("naruto", "1", "5")\<close> returns exactly four URLs, in the
  order \<open>epi/naruto-1x5/\<close>, \<open>episodes/naruto-1x5/\<close>, \<open>epi/naruto/1x5/\<close>,
  \<open>episodes/naruto/1x5/\<close> on \<open>https://animedekho.co/\<close>: both path prefixes with both
  ways of joining the slug to \<open>1x5\<close>. Each of them contains \<open>naruto\<close> and \<open>1x5\<close>.
\<close>

theorem naruto_candidates:
  "app_make_candidate_urls ''naruto'' ''1'' ''5'' =
     [''https://animedekho.co/epi/naruto-1x5/'',
      ''https://animedekho.co/episodes/naruto-1x5/'',
      ''https://animedekho.co/epi/naruto/1x5/'',
      ''https://animedekho.co/episodes/naruto/1x5/''] \<and>
   length (app_make_candidate_urls ''naruto'' ''1'' ''5'') = 4 \<and>
   list_all (\<lambda>url. py_contains ''naruto'' url \<and> py_contains ''1x5'' url)
     (app_make_candidate_urls ''naruto'' ''1'' ''5'')"
  by (simp add: app_make_candidate_urls_def)

subsection \<open>Slugs of any string\<close>

lemma int_code_point: "int (code_point x) = of_char x"
  by (simp add: code_point_def of_nat_of_char)

lemma char_of_int_code_point: "char_of (int (code_point x)) = x"
  by (simp add: int_code_point)

lemma latin1_code_point: "latin1 (int (code_point x))"
proof -
  have "code_point x mod 256 = code_point x" by (simp add: code_point_def)
  then have "code_point x < 256" by (metis mod_less_divisor zero_less_numeral)
  then show ?thesis by (simp add: latin1_def)
qed

lemma hyphen_char: "char_of (45::int) = CHR ''-''"
  by code_simp

lemma hyphen_plain: "\<not> u_is_space T 45 \<and> \<not> u_is_upper T 45"
  by (simp add: u_is_space_def u_is_upper_def latin1_def hyphen_char is_space_def is_upper_def
      code_point_def)

lemma ustr_hyphen: "ustr ''-'' = [45]"
  by (simp add: ustr_def code_point_def)

lemma set_u_strip: "set (u_strip T s) \<subseteq> set s"
  unfolding u_strip_def by (auto dest!: set_dropWhileD)

lemma set_u_lower_from:
  assumes "d \<in> set (u_lower_from T pre s)"
  shows "\<exists>p c q. c \<in> set s \<and> d \<in> set (u_lower_char T p c q)"
  using assms
proof (induction s arbitrary: pre)
  case Nil
  then show ?case by simp
next
  case (Cons a s)
  from Cons.prems have "d \<in> set (u_lower_char T pre a s) \<or> d \<in> set (u_lower_from T (pre @ [a]) s)"
    by simp
  then show ?case
  proof
    assume "d \<in> set (u_lower_char T pre a s)"
    then show ?thesis by (intro exI[of _ pre] exI[of _ a] exI[of _ s]) simp
  next
    assume "d \<in> set (u_lower_from T (pre @ [a]) s)"
    from Cons.IH[OF this] obtain p c q where "c \<in> set s" "d \<in> set (u_lower_char T p c q)"
      by blast
    then show ?thesis by (intro exI[of _ p] exI[of _ c] exI[of _ q]) simp
  qed
qed

lemma u_lower_latin1:
  assumes "\<forall>c\<in>set s. latin1 c" and "d \<in> set (u_lower T s)"
  shows "\<not> u_is_upper T d"
proof -
  from assms(2) obtain p c q where c: "c \<in> set s" and d: "d \<in> set (u_lower_char T p c q)"
    unfolding u_lower_def using set_u_lower_from by blast
  from c assms(1) have "latin1 c" by blast
  with d have d': "d = int (code_point (lower_char (char_of c)))" by (simp add: u_lower_char_def)
  have l: "latin1 d" unfolding d' by (rule latin1_code_point)
  have "char_of d = lower_char (char_of c)" unfolding d' by (rule char_of_int_code_point)
  then have "\<not> is_upper (char_of d)" by (simp add: lower_char_not_upper)
  with l show ?thesis by (simp add: u_is_upper_def)
qed

lemma unicode_slug_chars:
  assumes "c \<in> set (py_strip_chars [45]
             (re_sub_runs (\<lambda>c. c = 45) 45
               (re_sub_runs (u_is_space T) 45
                 (re_sub_delete (\<lambda>c. \<not> u_slug_keep T c) b))))"
  shows "\<not> u_is_space T c \<and> (c = 45 \<or> c \<in> set b)"
proof -
  define b1 where "b1 = re_sub_delete (\<lambda>c. \<not> u_slug_keep T c) b"
  define b2 where "b2 = re_sub_runs (u_is_space T) 45 b1"
  define b3 where "b3 = re_sub_runs (\<lambda>c. c = 45) 45 b2"
  from assms have "c \<in> set (py_strip_chars [45] b3)" by (simp only: b1_def b2_def b3_def)
  then have "c \<in> set b3" by (rule set_strip_chars[THEN subsetD])
  then have "c \<in> insert 45 (set b2)" unfolding b3_def by (rule set_re_sub_runs[THEN subsetD])
  then have "c = 45 \<or> c \<in> set b2" by simp
  then show ?thesis
  proof
    assume "c = 45"
    then show ?thesis using hyphen_plain[of T] by simp
  next
    assume c2: "c \<in> set b2"
    have "\<not> u_is_space T 45" using hyphen_plain[of T] by simp
    then have ns: "\<not> u_is_space T c" using c2 unfolding b2_def by (rule re_sub_runs_none)
    from c2 have "c \<in> insert 45 (set b1)" unfolding b2_def by (rule set_re_sub_runs[THEN subsetD])
    then have "c = 45 \<or> c \<in> set b" by (auto simp: b1_def re_sub_delete_def)
    with ns show ?thesis by simp
  qed
qed

lemma app_unicode_first:
  assumes "app_make_slugs_unicode T title = Inr slugs"
  shows "slugs ! 0 = py_strip_chars [45]
             (re_sub_runs (\<lambda>c. c = 45) 45
               (re_sub_runs (u_is_space T) 45
                 (re_sub_delete (\<lambda>c. \<not> u_slug_keep T c) (u_lower T (u_strip T title)))))"
  using assms unfolding app_make_slugs_unicode_def Let_def ustr_hyphen
  by (auto split: sum.splits)

lemma video_unicode_same: "video_make_slugs_unicode T title = app_make_slugs_unicode T title"
  by (simp add: video_make_slugs_unicode_def app_make_slugs_unicode_def)

text \<open>
  Claim C6, as amended. For a title of letters, digits, spaces and hyphens, the first
  element of \<open>make_slugs(title)\<close> (of either file) neither starts nor ends with a
  hyphen and contains no whitespace character; and none of its characters is an
  uppercase letter whenever \<open>title.strip().lower()\<close> has none, which is so when every
  uppercase letter of the title has a lowercase form, as all characters below U+0100
  do. This holds whatever the Unicode tables are beyond U+00FF.
\<close>

theorem first_slug_shape:
  assumes "app_make_slugs_unicode T title = Inr slugs \<or>
           video_make_slugs_unicode T title = Inr slugs"
    and "\<forall>c\<in>set title. title_char T c"
  shows "\<not> prefix (ustr ''-'') (slugs ! 0) \<and> \<not> suffix (ustr ''-'') (slugs ! 0) \<and>
         no_whitespace T (slugs ! 0) \<and>
         (no_uppercase T (u_lower T (u_strip T title)) \<longrightarrow> no_uppercase T (slugs ! 0)) \<and>
         ((\<forall>c\<in>set title. latin1 c) \<longrightarrow> no_uppercase T (slugs ! 0))"
proof -
  let ?b = "u_lower T (u_strip T title)"
  from assms(1) have a: "app_make_slugs_unicode T title = Inr slugs"
    by (simp add: video_unicode_same)
  note s = app_unicode_first[OF a]
  have ends: "\<not> prefix (ustr ''-'') (slugs ! 0) \<and> \<not> suffix (ustr ''-'') (slugs ! 0)"
    unfolding s ustr_hyphen by (rule strip_chars_ends)
  have chars: "\<not> u_is_space T c \<and> (c = 45 \<or> c \<in> set ?b)" if "c \<in> set (slugs ! 0)" for c
    using that unfolding s by (rule unicode_slug_chars)
  have ws: "no_whitespace T (slugs ! 0)"
    using chars by (simp add: no_whitespace_def list_all_iff)
  have up: "no_uppercase T (slugs ! 0)" if "no_uppercase T ?b"
    using that chars hyphen_plain by (auto simp: no_uppercase_def list_all_iff)
  have "no_uppercase T ?b" if l: "\<forall>c\<in>set title. latin1 c"
  proof -
    from l set_u_strip have "\<forall>c\<in>set (u_strip T title). latin1 c" by blast
    then show ?thesis using u_lower_latin1 by (auto simp: no_uppercase_def list_all_iff)
  qed
  with ends ws up show ?thesis by blast
qed

text \<open>
  The title \<open>" \<Omega>mega  3 "\<close>, whose capital omega has a lowercase form, in \<open>app.py\<close>, and
  the title \<open>"  One  Piece - 2 "\<close>, below U+0100, in \<open>video.py\<close>.
\<close>

theorem first_slug_shape_witness:
  "list_all (title_char sample_tables) (ustr '' '' @ 0x3A9 # ustr ''mega  3 '') \<and>
   app_make_slugs_unicode sample_tables (ustr '' '' @ 0x3A9 # ustr ''mega  3 '') =
     Inr [0x3C9 # ustr ''mega-3'', ustr ''%CF%89mega-3''] \<and>
   no_uppercase sample_tables
     (u_lower sample_tables (u_strip sample_tables (ustr '' '' @ 0x3A9 # ustr ''mega  3 ''))) \<and>
   \<not> prefix (ustr ''-'') (0x3C9 # ustr ''mega-3'') \<and>
   \<not> suffix (ustr ''-'') (0x3C9 # ustr ''mega-3'') \<and>
   no_whitespace sample_tables (0x3C9 # ustr ''mega-3'') \<and>
   no_uppercase sample_tables (0x3C9 # ustr ''mega-3'') \<and>
   list_all (title_char sample_tables) (ustr ''  One  Piece - 2 '') \<and>
   list_all latin1 (ustr ''  One  Piece - 2 '') \<and>
   video_make_slugs_unicode sample_tables (ustr ''  One  Piece - 2 '') =
     Inr [ustr ''one-piece-2'', ustr ''one-piece-2''] \<and>
   no_uppercase sample_tables (ustr ''one-piece-2'')"
proof -
  let ?t = "ustr '' '' @ 0x3A9 # ustr ''mega  3 ''"
  let ?u = "ustr ''  One  Piece - 2 ''"
  have h1: "list_all (title_char sample_tables) ?t" by code_simp
  have r1: "app_make_slugs_unicode sample_tables ?t =
     Inr [0x3C9 # ustr ''mega-3'', ustr ''%CF%89mega-3'']" by code_simp
  have l1: "no_uppercase sample_tables (u_lower sample_tables (u_strip sample_tables ?t))"
    by code_simp
  have h2: "list_all (title_char sample_tables) ?u" by code_simp
  have a2: "list_all latin1 ?u" by code_simp
  have r2: "video_make_slugs_unicode sample_tables ?u =
     Inr [ustr ''one-piece-2'', ustr ''one-piece-2'']" by code_simp
  have n1: "[0x3C9 # ustr ''mega-3'', ustr ''%CF%89mega-3''] ! 0 = 0x3C9 # ustr ''mega-3''"
    and n2: "[ustr ''one-piece-2'', ustr ''one-piece-2''] ! 0 = ustr ''one-piece-2''"
    by simp_all
  from first_slug_shape[OF disjI1[OF r1] h1[unfolded list_all_iff]]
    first_slug_shape[OF disjI2[OF r2] h2[unfolded list_all_iff]]
    h1 r1 l1 h2 a2 r2
  show ?thesis unfolding n1 n2 list_all_iff by blast
qed

text \<open>
  Claim C6 as it was stated (the slug of such a title is entirely lowercase) fails on
  the title made of U+210D and \<open>"ero 9"\<close>: U+210D is a letter, it is uppercase, and
  \<open>lower()\<close> leaves it, so the slug starts with an uppercase letter.
\<close>

theorem uppercase_slug_counterexample:
  "list_all (title_char sample_tables) (0x210D # ustr ''ero 9'') \<and>
   app_make_slugs_unicode sample_tables (0x210D # ustr ''ero 9'') =
     Inr [0x210D # ustr ''ero-9'', ustr ''%E2%84%8Dero-9''] \<and>
   u_is_upper sample_tables 0x210D \<and>
   \<not> no_uppercase sample_tables (0x210D # ustr ''ero-9'')"
  by code_simp

section \<open>The scan\<close>

lemma navigated_append: "navigated (a @ b) = navigated a @ navigated b"
  by (induction a rule: navigated.induct) auto

lemma captured_append: "captured (a @ b) = (captured a \<or> captured b)"
  by (induction a rule: captured.induct) auto

lemma halts_append:
  "halts_on_capture (a @ b) = (halts_on_capture a \<and> (if captured a then navigated b = [] else halts_on_capture b))"
  by (induction a rule: halts_on_capture.induct) (auto simp: navigated_append)

lemma halts_split: "halts_on_capture (a @ Captured m # b) \<Longrightarrow> navigated b = []"
  by (induction a rule: halts_on_capture.induct) (auto simp: navigated_append)

lemma step_ok_refl: "step_ok [] s s"
  by (simp add: step_ok_def)

lemma step_ok_trans:
  assumes "step_ok a s s1" and "step_ok b s1 s2" and "captured a \<Longrightarrow> navigated b = []"
  shows "step_ok (a @ b) s s2"
  using assms unfolding step_ok_def
  by (auto simp: halts_append captured_append)

lemma video_re_match_nonempty: "video_re_match u = Some m \<Longrightarrow> m \<noteq> []"
  by (auto simp: video_re_match_def Let_def split: if_splits)

lemma video_re_search_nonempty: "video_re_search u = Some m \<Longrightarrow> m \<noteq> []"
  by (induction u) (auto split: option.splits dest: video_re_match_nonempty)

lemma on_request_cases:
  assumes "on_request s u = (ev, s')"
  shows "(ev = [] \<and> s' = s) \<or>
         (listening s \<and> (\<exists>m. m \<noteq> [] \<and> ev = [Captured m] \<and> s' = s\<lparr>found := Some m, listening := False\<rparr>))"
  using assms unfolding on_request_def
  by (auto split: if_splits option.splits dest: video_re_search_nonempty)

lemma dispatch_deaf: "\<not> listening s \<Longrightarrow> dispatch us s = ([], s)"
  by (induction us) (auto simp: on_request_def)

lemma dispatch_cases:
  assumes "dispatch us s = (ev, s')"
  shows "(ev = [] \<and> s' = s) \<or>
         (listening s \<and> (\<exists>m. m \<noteq> [] \<and> ev = [Captured m] \<and> s' = s\<lparr>found := Some m, listening := False\<rparr>))"
  using assms
proof (induction us arbitrary: ev s s')
  case Nil
  then show ?case by simp
next
  case (Cons u us)
  obtain e1 s1 where o: "on_request s u = (e1, s1)" by (cases "on_request s u")
  obtain e2 s2 where d: "dispatch us s1 = (e2, s2)" by (cases "dispatch us s1")
  from Cons.prems o d have ev: "ev = e1 @ e2" and s': "s' = s2" by auto
  from on_request_cases[OF o] show ?case
  proof
    assume "e1 = [] \<and> s1 = s"
    with Cons.IH[OF d] ev s' show ?thesis by auto
  next
    assume a: "listening s \<and> (\<exists>m. m \<noteq> [] \<and> e1 = [Captured m] \<and> s1 = s\<lparr>found := Some m, listening := False\<rparr>)"
    then have "\<not> listening s1" by auto
    from dispatch_deaf[OF this] d have "e2 = []" "s2 = s1" by auto
    with a ev s' show ?thesis by auto
  qed
qed

lemma perform_cases:
  assumes "perform env c s = (r, ev, s')"
  shows "(ev = [Playwright c] \<and> found s' = found s \<and> listening s' = listening s) \<or>
         (listening s \<and> \<not> listening s' \<and> (\<exists>m. m \<noteq> [] \<and> ev = [Playwright c, Captured m] \<and> found s' = Some m))"
proof -
  obtain rp w where e: "env (world s) c = (rp, w)" by (cases "env (world s) c")
  obtain ev0 s0 where d: "dispatch (requests rp) (s\<lparr>world := w\<rparr>) = (ev0, s0)"
    by (cases "dispatch (requests rp) (s\<lparr>world := w\<rparr>)")
  from assms e d have "ev = Playwright c # ev0" "s' = s0" by (auto simp: perform_def)
  with dispatch_cases[OF d] show ?thesis by auto
qed

lemma perform_deaf:
  assumes "perform env c s = (r, ev, s')" and "\<not> listening s"
  shows "ev = [Playwright c] \<and> found s' = found s \<and> \<not> listening s'"
  using perform_cases[OF assms(1)] assms(2) by auto

lemma perform_step_ok:
  assumes "perform env c s = (r, ev, s')"
  shows "step_ok ev s s'"
  using perform_cases[OF assms] by (auto simp: step_ok_def truthy_def)

lemma perform_navigated:
  assumes "perform env c s = (r, ev, s')"
  shows "navigated ev = navigated [Playwright c]"
  using perform_cases[OF assms] by (cases c) auto

lemma try_navigate_step_ok:
  assumes "try_navigate env u s = (ev, s')"
  shows "step_ok ev s s' \<and> navigated ev = [u]"
proof -
  obtain r1 ev1 s1 where p1: "perform env (Goto u ''domcontentloaded'' 20000) s = (r1, ev1, s1)"
    by (cases "perform env (Goto u ''domcontentloaded'' 20000) s")
  note g1 = perform_step_ok[OF p1] and n1 = perform_navigated[OF p1]
  show ?thesis
  proof (cases r1)
    case (Some e)
    with assms p1 have "ev = ev1" "s' = s1" by (auto simp: try_navigate_def)
    with g1 n1 show ?thesis by simp
  next
    case None
    obtain r2 ev2 s2 where p2: "perform env (Wait_for_timeout 3000) s1 = (r2, ev2, s2)"
      by (cases "perform env (Wait_for_timeout 3000) s1")
    note g2 = perform_step_ok[OF p2] and n2 = perform_navigated[OF p2]
    from None assms p1 p2 have "ev = ev1 @ ev2" "s' = s2" by (auto simp: try_navigate_def)
    moreover have "step_ok (ev1 @ ev2) s s2" using g1 g2 n2 by (intro step_ok_trans) auto
    ultimately show ?thesis using n1 n2 by (simp add: navigated_append)
  qed
qed

lemma candidate_loop_found: "truthy (found s) \<Longrightarrow> candidate_loop env cs s = ([], s)"
  by (cases cs) auto

lemma candidate_loop_step_ok:
  assumes "candidate_loop env cs s = (ev, s')"
  shows "step_ok ev s s' \<and> (\<exists>n. navigated ev = take n cs)"
  using assms
proof (induction cs arbitrary: s ev s')
  case Nil
  then show ?case by (simp add: step_ok_refl)
next
  case (Cons u rest)
  show ?case
  proof (cases "truthy (found s)")
    case True
    with Cons.prems have "ev = []" "s' = s" by auto
    then have "step_ok ev s s'" "navigated ev = take 0 (u # rest)" by (simp_all add: step_ok_refl)
    then show ?thesis by blast
  next
    case False
    obtain ev1 s1 where t: "try_navigate env u s = (ev1, s1)" by (cases "try_navigate env u s")
    obtain ev2 s2 where l: "candidate_loop env rest s1 = (ev2, s2)"
      by (cases "candidate_loop env rest s1")
    from False Cons.prems t l have ev: "ev = ev1 @ ev2" and s': "s' = s2" by auto
    from try_navigate_step_ok[OF t] have g1: "step_ok ev1 s s1" and n1: "navigated ev1 = [u]" by auto
    from Cons.IH[OF l] obtain n where g2: "step_ok ev2 s1 s2" and n2: "navigated ev2 = take n rest"
      by auto
    have "captured ev1 \<Longrightarrow> navigated ev2 = []"
    proof -
      assume "captured ev1"
      with g1 have "truthy (found s1)" by (simp add: step_ok_def)
      from candidate_loop_found[OF this] l show ?thesis by simp
    qed
    with g1 g2 have "step_ok (ev1 @ ev2) s s2" by (rule step_ok_trans)
    moreover have "navigated (ev1 @ ev2) = take (Suc n) (u # rest)"
      using n1 n2 by (simp add: navigated_append)
    ultimately show ?thesis using ev s' by blast
  qed
qed


lemma and_then_cases:
  assumes "and_then p k = (x, ev, s')"
  obtains (raise) e where "p = (Some e, ev, s')" "x = Inl e"
  | (ok) ev1 s1 ev2 where "p = (None, ev1, s1)" "k s1 = (x, ev2, s')" "ev = ev1 @ ev2"
  using assms unfolding and_then_def
  by (auto split: prod.splits option.splits)

lemma close_page_props:
  assumes "close_page env s = (x, ev, s')"
  shows "step_ok ev s s' \<and> navigated ev = [] \<and>
         (\<forall>r. x = Inr r \<longrightarrow> r = (if truthy (found s') then found_result (the (found s')) else not_found_result))"
  using assms unfolding close_page_def
proof (cases rule: and_then_cases)
  case (raise e)
  then show ?thesis using perform_step_ok perform_navigated by fastforce
next
  case (ok ev1 s1 ev2)
  note g1 = perform_step_ok[OF ok(1)] and n1 = perform_navigated[OF ok(1)]
  from ok(2) show ?thesis
  proof (cases rule: and_then_cases)
    case (raise e)
    note g2 = perform_step_ok[OF raise(1)] and n2 = perform_navigated[OF raise(1)]
    have "step_ok (ev1 @ ev2) s s'" using g1 g2 n2 by (intro step_ok_trans) auto
    then show ?thesis using ok(3) raise(2) n1 n2 by (simp add: navigated_append)
  next
    case (ok ev3 s3 ev4)
    note g2 = perform_step_ok[OF ok(1)] and n2 = perform_navigated[OF ok(1)]
    from ok(2) have x: "x = Inr (case found s3 of None \<Rightarrow> not_found_result
                     | Some url \<Rightarrow> if url \<noteq> [] then found_result url else not_found_result)"
      and "ev4 = []" and s3: "s' = s3" by auto
    with ok(3) have ev2: "ev2 = ev3" by simp
    have "step_ok (ev1 @ ev2) s s'" using g1 g2 n2 ev2 s3 by (intro step_ok_trans) auto
    moreover have "navigated (ev1 @ ev2) = []" using n1 n2 ev2 by (simp add: navigated_append)
    ultimately show ?thesis using \<open>ev = ev1 @ ev2\<close> x s3
      by (auto simp: truthy_def split: option.splits)
  qed
qed

lemma page_scan_props:
  assumes "page_scan env engine ua cs s = (x, ev, s')" and "\<not> listening s"
  shows "halts_on_capture ev \<and> (\<exists>n. navigated ev = take n cs) \<and>
         (\<forall>r. x = Inr r \<longrightarrow> (if captured ev then \<exists>u. u \<noteq> [] \<and> r = found_result u else r = not_found_result))"
  using assms(1) unfolding page_scan_def
proof (cases rule: and_then_cases)
  case (raise e)
  from perform_deaf[OF raise(1) assms(2)] raise(2)
  have "halts_on_capture ev" "navigated ev = take 0 cs" "x = Inl e" by simp_all
  then show ?thesis by blast
next
  case (ok ev1 s1 rest1)
  from perform_deaf[OF ok(1) assms(2)]
  have e1: "ev1 = [Playwright (Launch engine True)]" and d1: "\<not> listening s1" by auto
  from ok(2) show ?thesis
  proof (cases rule: and_then_cases)
    case (raise e)
    from perform_deaf[OF raise(1) d1] raise(2) e1 ok(3)
    have "halts_on_capture ev" "navigated ev = take 0 cs" "x = Inl e" by simp_all
    then show ?thesis by blast
  next
    case (ok ev2 s2 rest2)
    from perform_deaf[OF ok(1) d1]
    have e2: "ev2 = [Playwright (New_context ua)]" and d2: "\<not> listening s2" by auto
    note ev12 = \<open>ev = ev1 @ rest1\<close> \<open>rest1 = ev2 @ rest2\<close>
    from ok(2) show ?thesis
    proof (cases rule: and_then_cases)
      case (raise e)
      from perform_deaf[OF raise(1) d2] raise(2) e1 e2 ev12
      have "halts_on_capture ev" "navigated ev = take 0 cs" "x = Inl e" by simp_all
      then show ?thesis by blast
    next
      case (ok ev3 s3 rest3)
      from perform_deaf[OF ok(1) d2]
      have e3: "ev3 = [Playwright New_page]" and d3: "\<not> listening (s3\<lparr>found := None\<rparr>)" by auto
      note ev123 = ev12 \<open>rest2 = ev3 @ rest3\<close>
      from ok(2) show ?thesis
      proof (cases rule: and_then_cases)
        case (raise e)
        from perform_deaf[OF raise(1) d3] raise(2) e1 e2 e3 ev123
        have "halts_on_capture ev" "navigated ev = take 0 cs" "x = Inl e" by simp_all
        then show ?thesis by blast
      next
        case (ok ev4 s4 rest4)
        from perform_deaf[OF ok(1) d3]
        have e4: "ev4 = [Playwright Page_on_request]" and f4: "found s4 = None" by auto
        define s4' where "s4' = s4\<lparr>listening := True\<rparr>"
        obtain evL s5 where l: "candidate_loop env cs s4' = (evL, s5)"
          by (cases "candidate_loop env cs s4'")
        obtain x' evC s6 where c: "close_page env s5 = (x', evC, s6)"
          by (cases "close_page env s5")
        from ok(2) l c have r4: "rest4 = evL @ evC" and x: "x = x'" and s6: "s' = s6"
          by (simp_all add: s4'_def)
        from candidate_loop_step_ok[OF l] obtain n where gL: "step_ok evL s4' s5"
          and nL: "navigated evL = take n cs" by auto
        from close_page_props[OF c] have gC: "step_ok evC s5 s6" and nC: "navigated evC = []"
          and res: "\<forall>r. x' = Inr r \<longrightarrow> r = (if truthy (found s6) then found_result (the (found s6)) else not_found_result)"
          by auto
        have g: "step_ok (evL @ evC) s4' s6" using gL gC nC by (intro step_ok_trans) auto
        have ev: "ev = [Playwright (Launch engine True), Playwright (New_context ua),
                    Playwright New_page, Playwright Page_on_request] @ (evL @ evC)"
          using ev123 \<open>rest3 = ev4 @ rest4\<close> e1 e2 e3 e4 r4 by simp
        have h: "halts_on_capture ev" using g ev by (simp add: step_ok_def)
        have nav: "navigated ev = take n cs" using ev nL nC by (simp add: navigated_append)
        have cap: "captured ev = captured (evL @ evC)" using ev by simp
        have f: "found s4' = None" using f4 by (simp add: s4'_def)
        have "\<forall>r. x = Inr r \<longrightarrow> (if captured ev then \<exists>u. u \<noteq> [] \<and> r = found_result u else r = not_found_result)"
        proof (intro allI impI)
          fix r assume "x = Inr r"
          with res x have r: "r = (if truthy (found s6) then found_result (the (found s6)) else not_found_result)"
            by simp
          show "if captured ev then \<exists>u. u \<noteq> [] \<and> r = found_result u else r = not_found_result"
          proof (cases "captured ev")
            case True
            with cap g have "truthy (found s6)" by (simp add: step_ok_def)
            with r True show ?thesis by (auto simp: truthy_def split: option.splits)
          next
            case False
            with cap g f have "found s6 = None" by (simp add: step_ok_def)
            with r False show ?thesis by (simp add: truthy_def)
          qed
        qed
        with h nav show ?thesis by blast
      qed
    qed
  qed
qed

lemma with_sync_playwright_props:
  assumes "with_sync_playwright env (page_scan env engine ua cs) s = (x, ev, s')"
    and "\<not> listening s"
  shows "halts_on_capture ev \<and> (\<exists>n. navigated ev = take n cs) \<and>
         (\<forall>r. x = Inr r \<longrightarrow>
            (r = not_found_result \<or> (\<exists>u. u \<noteq> [] \<and> r = found_result u)) \<and>
            (\<not> captured ev \<longrightarrow> r = not_found_result))"
proof -
  obtain r0 ev0 s1 where p0: "perform env Sync_playwright_enter s = (r0, ev0, s1)"
    by (cases "perform env Sync_playwright_enter s")
  from perform_deaf[OF p0 assms(2)]
  have e0: "ev0 = [Playwright Sync_playwright_enter]" and d1: "\<not> listening s1" by auto
  show ?thesis
  proof (cases r0)
    case (Some e)
    with assms(1) p0 have "ev = ev0" "x = Inl e" by (auto simp: with_sync_playwright_def)
    with e0 have "halts_on_capture ev" "navigated ev = take 0 cs" "x = Inl e" by simp_all
    then show ?thesis by blast
  next
    case None
    obtain x2 ev2 s2 where b: "page_scan env engine ua cs s1 = (x2, ev2, s2)"
      by (cases "page_scan env engine ua cs s1")
    obtain r3 ev3 s3 where p3: "perform env Sync_playwright_exit s2 = (r3, ev3, s3)"
      by (cases "perform env Sync_playwright_exit s2")
    from None assms(1) p0 b p3 have ev: "ev = ev0 @ ev2 @ ev3"
      and x: "x = (case r3 of Some e \<Rightarrow> Inl e | None \<Rightarrow> x2)"
      by (auto simp: with_sync_playwright_def split: option.splits)
    from page_scan_props[OF b d1] obtain n where h2: "halts_on_capture ev2"
      and n2: "navigated ev2 = take n cs"
      and r2: "\<forall>r. x2 = Inr r \<longrightarrow>
          (if captured ev2 then \<exists>u. u \<noteq> [] \<and> r = found_result u else r = not_found_result)"
      by auto
    from perform_step_ok[OF p3] have h3: "halts_on_capture ev3" by (simp add: step_ok_def)
    from perform_navigated[OF p3] have n3: "navigated ev3 = []" by simp
    have h: "halts_on_capture ev" using ev e0 h2 h3 n3 by (simp add: halts_append)
    have nav: "navigated ev = take n cs" using ev e0 n2 n3 by (simp add: navigated_append)
    have c: "captured ev = (captured ev2 \<or> captured ev3)" using ev e0 by (simp add: captured_append)
    have "\<forall>r. x = Inr r \<longrightarrow>
            (r = not_found_result \<or> (\<exists>u. u \<noteq> [] \<and> r = found_result u)) \<and>
            (\<not> captured ev \<longrightarrow> r = not_found_result)"
    proof (intro allI impI)
      fix r assume "x = Inr r"
      with x have "x2 = Inr r" by (cases r3) auto
      with r2 have "if captured ev2 then \<exists>u. u \<noteq> [] \<and> r = found_result u else r = not_found_result"
        by blast
      then show "(r = not_found_result \<or> (\<exists>u. u \<noteq> [] \<and> r = found_result u)) \<and>
            (\<not> captured ev \<longrightarrow> r = not_found_result)"
        using c by (cases "captured ev2") auto
    qed
    with h nav show ?thesis by blast
  qed
qed

lemma app_scan_props:
  assumes "app_scan env t s e w = (x, ev, w')"
  shows "halts_on_capture ev \<and> (\<exists>n. navigated ev = take n (app_candidates t s e)) \<and>
         (\<forall>r. x = Inr r \<longrightarrow>
            (r = not_found_result \<or> (\<exists>u. u \<noteq> [] \<and> r = found_result u)) \<and>
            (\<not> captured ev \<longrightarrow> r = not_found_result))"
proof -
  let ?s0 = "\<lparr>world = w, found = None, listening = False\<rparr>"
  obtain s' where "with_sync_playwright env
      (page_scan env ''firefox'' app_user_agent (app_candidates t s e)) ?s0 = (x, ev, s')"
    using assms by (auto simp: app_scan_def Let_def split: prod.splits)
  from with_sync_playwright_props[OF this] show ?thesis by simp
qed

lemma video_scan_props:
  assumes "video_scan env t s e w = (x, ev, w')"
  shows "halts_on_capture ev \<and> (\<exists>n. navigated ev = take n (video_candidates t s e)) \<and>
         (\<forall>r. x = Inr r \<longrightarrow>
            (r = not_found_result \<or> (\<exists>u. u \<noteq> [] \<and> r = found_result u)) \<and>
            (\<not> captured ev \<longrightarrow> r = not_found_result))"
proof -
  let ?s0 = "\<lparr>world = w, found = None, listening = False\<rparr>"
  obtain s' where "with_sync_playwright env
      (page_scan env ''chromium'' video_user_agent (video_candidates t s e)) ?s0 = (x, ev, s')"
    using assms by (auto simp: video_scan_def Let_def split: prod.splits)
  from with_sync_playwright_props[OF this] show ?thesis by simp
qed

lemma app_fetch_cases:
  assumes "app_fetch_video_url env t s e w = (r, ev, w')"
  obtains x ev0 where "app_scan env t s e w = (x, ev0, w')" "ev = Fetch_video_url t s e # ev0"
    "r = (case x of Inl m \<Rightarrow> error_result m | Inr d \<Rightarrow> d)"
  using assms unfolding app_fetch_video_url_def
  by (auto split: prod.splits sum.splits)

lemma video_fetch_cases:
  assumes "video_fetch_video_url env t s e w = (r, ev, w')"
  obtains x ev0 where "video_scan env t s e w = (x, ev0, w')" "ev = Fetch_video_url t s e # ev0"
    "r = (case x of Inl m \<Rightarrow> error_result m | Inr d \<Rightarrow> d)"
  using assms unfolding video_fetch_video_url_def
  by (auto split: prod.splits sum.splits)

lemma take_by_length:
  assumes "length (take n cs) = k"
  shows "take k cs = take n cs"
  using assms by (cases "n \<le> length cs") (auto simp: min_def)

lemma fetch_run_shape:
  assumes "halts_on_capture ev0" and "navigated ev0 = take n cs"
    and "ev = Fetch_video_url t s e # ev0"
    and "ev = before @ Captured m # after"
    and "length (navigated before) = Suc k"
  shows "navigated after = [] \<and> navigated ev = take (Suc k) cs"
proof -
  have "halts_on_capture ev" using assms(1,3) by simp
  then have "halts_on_capture (before @ Captured m # after)" using assms(4) by simp
  then have a: "navigated after = []" by (rule halts_split)
  have n: "navigated ev = take n cs" using assms(2,3) by simp
  have "navigated ev = navigated before @ navigated after"
    using assms(4) by (simp add: navigated_append)
  with a n have "navigated before = take n cs" by simp
  with assms(5) have "length (take n cs) = Suc k" by simp
  then have "take (Suc k) cs = take n cs" by (rule take_by_length)
  with a n show ?thesis by simp
qed

lemma length_app_candidates: "length (app_candidates t s e) = 8"
  by (simp add: app_candidates_def app_make_slugs_def app_make_candidate_urls_def Let_def)

lemma length_video_candidates: "length (video_candidates t s e) = 8"
  by (simp add: video_candidates_def video_make_slugs_def video_make_candidate_urls_def Let_def)

text \<open>
  Claim C1. Take a run of \<open>fetch_video_url\<close> (of either file) in which the observer
  captures a match, and let candidate \<open>k\<close>, counted from 0, be the one being processed
  then: \<open>k + 1\<close> navigations precede the capture. No navigation follows the capture, so
  the pages visited in the whole run are the candidates \<open>0\<close> to \<open>k\<close> of the list of
  eight, in order, and no later one.
\<close>

theorem short_circuit:
  assumes "app_fetch_video_url env t s e w = (r, ev, w') \<and> cands = app_candidates t s e \<or>
           video_fetch_video_url env t s e w = (r, ev, w') \<and> cands = video_candidates t s e"
    and "ev = before @ Captured m # after"
    and "length (navigated before) = Suc k"
  shows "navigated after = [] \<and> navigated ev = take (Suc k) cands \<and> length cands = 8"
  using assms(1)
proof
  assume a: "app_fetch_video_url env t s e w = (r, ev, w') \<and> cands = app_candidates t s e"
  then obtain x ev0 where sc: "app_scan env t s e w = (x, ev0, w')"
    and ev: "ev = Fetch_video_url t s e # ev0" by (auto elim: app_fetch_cases)
  from app_scan_props[OF sc] obtain n where "halts_on_capture ev0"
    "navigated ev0 = take n cands" using a by auto
  from fetch_run_shape[OF this ev assms(2,3)] a show ?thesis
    by (simp add: length_app_candidates)
next
  assume a: "video_fetch_video_url env t s e w = (r, ev, w') \<and> cands = video_candidates t s e"
  then obtain x ev0 where sc: "video_scan env t s e w = (x, ev0, w')"
    and ev: "ev = Fetch_video_url t s e # ev0" by (auto elim: video_fetch_cases)
  from video_scan_props[OF sc] obtain n where "halts_on_capture ev0"
    "navigated ev0 = take n cands" using a by auto
  from fetch_run_shape[OF this ev assms(2,3)] a show ?thesis
    by (simp add: length_video_candidates)
qed

section \<open>The endpoint and the outcomes of the scan\<close>

lemma py_int_empty: "py_int [] = Inl ValueError"
  by (simp add: py_int_def)

lemma get_video_url_valid:
  assumes "passes_validation args t s e"
    and "app_fetch_video_url env t s e w = (r, ev, w')"
  shows "get_video_url env args w =
          ((r, if success r then 200
               else if py_contains ''No video URL found''
                         (case error r of None \<Rightarrow> [] | Some m \<Rightarrow> m) then 404 else 500),
           ev, w')"
proof -
  from assms(1) have a: "args ''title'' = Some t" "args ''season'' = Some s"
    "args ''episode'' = Some e" "t \<noteq> []"
    and ps: "py_int s \<noteq> Inl ValueError" and pe: "py_int e \<noteq> Inl ValueError"
    by (simp_all add: passes_validation_def)
  from ps pe py_int_empty have ne: "s \<noteq> []" "e \<noteq> []" by auto
  from ps obtain i where i: "py_int s = Inr i" by (cases "py_int s") (auto intro: py_exception.exhaust)
  from pe obtain j where j: "py_int e = Inr j" by (cases "py_int e") (auto intro: py_exception.exhaust)
  show ?thesis
    using a ne i j assms(2) by (simp add: get_video_url_def truthy_def)
qed

lemma needle_in_not_found:
  "py_contains ''No video URL found'' ''No video URL found. Try different season/episode numbers.''"
  by simp

text \<open>
  Claim C2. When what stands inside the \<open>try\<close> of \<open>fetch_video_url\<close> ends without an
  exception and the observer captured nothing, the function returns the dictionary
  with \<open>success = False\<close> whose \<open>error\<close> contains \<open>No video URL found\<close>, and
  \<open>/api/video\<close>, for a request that passes its validation, answers with that
  dictionary and the status 404.
\<close>

theorem not_found_is_404:
  assumes "app_scan env t s e w = (Inr r, ev, w')" and "\<not> captured ev"
  shows "app_fetch_video_url env t s e w = (r, Fetch_video_url t s e # ev, w') \<and>
         r = not_found_result \<and> \<not> success r \<and>
         (\<exists>msg. error r = Some msg \<and> py_contains ''No video URL found'' msg) \<and>
         (passes_validation args t s e \<longrightarrow>
            get_video_url env args w = ((r, 404), Fetch_video_url t s e # ev, w'))"
proof -
  have f: "app_fetch_video_url env t s e w = (r, Fetch_video_url t s e # ev, w')"
    using assms(1) by (simp add: app_fetch_video_url_def)
  from app_scan_props[OF assms(1)] assms(2) have r: "r = not_found_result" by simp
  have e: "error r = Some ''No video URL found. Try different season/episode numbers.''"
    and s: "\<not> success r" by (simp_all add: r not_found_result_def)
  have "get_video_url env args w = ((r, 404), Fetch_video_url t s e # ev, w')"
    if "passes_validation args t s e"
    using get_video_url_valid[OF that f] s e needle_in_not_found by simp
  with f r s e needle_in_not_found show ?thesis by simp
qed

text \<open>
  An exception with the text \<open>msg\<close> that reaches the \<open>except Exception\<close> of
  \<open>fetch_video_url\<close>: the function returns \<open>success = False\<close> with the message
  \<open>Failed to fetch video URL\<close> and the error \<open>An error occurred: msg\<close>. The endpoint
  chooses the status by looking for \<open>No video URL found\<close> in that error.
\<close>

lemma scan_exception_status:
  assumes "app_scan env t s e w = (Inl msg, ev, w')"
  shows "app_fetch_video_url env t s e w = (error_result msg, Fetch_video_url t s e # ev, w') \<and>
         \<not> success (error_result msg) \<and>
         error (error_result msg) = Some (''An error occurred: '' @ msg) \<and>
         message (error_result msg) = ''Failed to fetch video URL'' \<and>
         (passes_validation args t s e \<longrightarrow>
            get_video_url env args w =
              ((error_result msg,
                if py_contains ''No video URL found'' (''An error occurred: '' @ msg)
                then 404 else 500),
               Fetch_video_url t s e # ev, w'))"
proof -
  have f: "app_fetch_video_url env t s e w = (error_result msg, Fetch_video_url t s e # ev, w')"
    using assms(1) by (simp add: app_fetch_video_url_def)
  have "get_video_url env args w =
              ((error_result msg,
                if py_contains ''No video URL found'' (''An error occurred: '' @ msg)
                then 404 else 500),
               Fetch_video_url t s e # ev, w')"
    if "passes_validation args t s e"
    using get_video_url_valid[OF that f] by (simp add: error_result_def)
  with f show ?thesis by (simp add: error_result_def)
qed

lemma scan_exception_500:
  assumes "app_scan env t s e w = (Inl msg, ev, w')"
    and "passes_validation args t s e"
    and "\<not> py_contains ''No video URL found'' (''An error occurred: '' @ msg)"
  shows "get_video_url env args w =
           ((error_result msg, 500), Fetch_video_url t s e # ev, w')"
  using scan_exception_status[OF assms(1), where args = args] assms(2,3) by simp

lemma result_shapes:
  assumes "r = error_result m \<or> r = not_found_result \<or> r = found_result u"
  shows "(success r \<longrightarrow> video_url r \<noteq> None \<and> error r = None) \<and>
         (\<not> success r \<longrightarrow> error r \<noteq> None \<and> video_url r = None)"
  using assms by (auto simp: error_result_def not_found_result_def found_result_def)

text \<open>
  Claim C4. Whatever \<open>fetch_video_url\<close> (of either file) returns, on every path:
  with \<open>success = True\<close> the key \<open>video_url\<close> is there and \<open>error\<close> is not; with
  \<open>success = False\<close> the key \<open>error\<close> is there and \<open>video_url\<close> is not.
\<close>

theorem result_fully_populated:
  assumes "app_fetch_video_url env t s e w = (r, ev, w') \<or>
           video_fetch_video_url env t s e w = (r, ev, w')"
  shows "(success r \<longrightarrow> video_url r \<noteq> None \<and> error r = None) \<and>
         (\<not> success r \<longrightarrow> error r \<noteq> None \<and> video_url r = None)"
proof -
  have shape: "\<exists>m u. r = error_result m \<or> r = not_found_result \<or> r = found_result u"
    if r: "r = (case x of Inl m \<Rightarrow> error_result m | Inr d \<Rightarrow> d)"
      and p: "\<forall>d. x = Inr d \<longrightarrow>
            (d = not_found_result \<or> (\<exists>u. u \<noteq> [] \<and> d = found_result u)) \<and>
            (\<not> captured ev0 \<longrightarrow> d = not_found_result)"
    for x :: "string + scan_result" and ev0
  proof (cases x)
    case (Inl m)
    with r have "r = error_result m" by simp
    then show ?thesis by blast
  next
    case (Inr d)
    with r have "r = d" by simp
    moreover from p Inr have "d = not_found_result \<or> (\<exists>u. u \<noteq> [] \<and> d = found_result u)"
      by blast
    ultimately show ?thesis by blast
  qed
  have "\<exists>m u. r = error_result m \<or> r = not_found_result \<or> r = found_result u"
    using assms
  proof
    assume "app_fetch_video_url env t s e w = (r, ev, w')"
    then obtain x ev0 where sc: "app_scan env t s e w = (x, ev0, w')"
      and r: "r = (case x of Inl m \<Rightarrow> error_result m | Inr d \<Rightarrow> d)"
      by (rule app_fetch_cases)
    from app_scan_props[OF sc] have "\<forall>d. x = Inr d \<longrightarrow>
            (d = not_found_result \<or> (\<exists>u. u \<noteq> [] \<and> d = found_result u)) \<and>
            (\<not> captured ev0 \<longrightarrow> d = not_found_result)" by (rule conjunct2[THEN conjunct2])
    with r show ?thesis by (rule shape)
  next
    assume "video_fetch_video_url env t s e w = (r, ev, w')"
    then obtain x ev0 where sc: "video_scan env t s e w = (x, ev0, w')"
      and r: "r = (case x of Inl m \<Rightarrow> error_result m | Inr d \<Rightarrow> d)"
      by (rule video_fetch_cases)
    from video_scan_props[OF sc] have "\<forall>d. x = Inr d \<longrightarrow>
            (d = not_found_result \<or> (\<exists>u. u \<noteq> [] \<and> d = found_result u)) \<and>
            (\<not> captured ev0 \<longrightarrow> d = not_found_result)" by (rule conjunct2[THEN conjunct2])
    with r show ?thesis by (rule shape)
  qed
  then obtain m u where "r = error_result m \<or> r = not_found_result \<or> r = found_result u"
    by blast
  then show ?thesis by (rule result_shapes)
qed

text \<open>
  Claim C7, as amended. When the season or the episode of a request is a string that
  \<open>int\<close> rejects, \<open>/api/video\<close> answers 400 with \<open>success = False\<close> and
  \<open>fetch_video_url\<close> is not invoked: the run has no event and the environment is
  left as it was. The dictionary is the one for an invalid season or episode when
  title, season and episode are all present and non-empty, and the one for missing
  parameters otherwise.
\<close>

theorem invalid_number_is_400:
  assumes "(\<exists>s. args ''season'' = Some s \<and> py_int s = Inl ValueError) \<or>
           (\<exists>e. args ''episode'' = Some e \<and> py_int e = Inl ValueError)"
  shows "\<exists>body. get_video_url env args w = ((body, 400), [], w) \<and> \<not> success body \<and>
           body = (if truthy (args ''title'') \<and> truthy (args ''season'') \<and> truthy (args ''episode'')
                   then invalid_number else missing_parameters)"
proof (cases "truthy (args ''title'') \<and> truthy (args ''season'') \<and> truthy (args ''episode'')")
  case False
  then have "\<not> truthy (args ''title'') \<or> \<not> truthy (args ''season'') \<or> \<not> truthy (args ''episode'')"
    by simp
  then have "get_video_url env args w = ((missing_parameters, 400), [], w)"
    by (simp add: get_video_url_def Let_def)
  moreover have "\<not> success missing_parameters" by (simp add: missing_parameters_def)
  moreover have "(if truthy (args ''title'') \<and> truthy (args ''season'') \<and> truthy (args ''episode'')
                   then invalid_number else missing_parameters) = missing_parameters"
    using False by (rule if_not_P)
  ultimately show ?thesis by (intro exI[of _ missing_parameters]) (simp only: simp_thms)
next
  case True
  then obtain t s e where a: "args ''title'' = Some t" "args ''season'' = Some s"
    "args ''episode'' = Some e" by (auto simp: truthy_def split: option.splits)
  from assms a have b: "py_int s = Inl ValueError \<or> py_int e = Inl ValueError" by auto
  have "get_video_url env args w = ((invalid_number, 400), [], w)"
  proof (cases "py_int s")
    case (Inl v)
    then have "py_int s = Inl ValueError" by (cases v) simp
    with True a show ?thesis by (simp add: get_video_url_def Let_def)
  next
    case (Inr i)
    with b have "py_int e = Inl ValueError" by simp
    with True a Inr show ?thesis by (simp add: get_video_url_def Let_def)
  qed
  moreover have "\<not> success invalid_number" by (simp add: invalid_number_def)
  moreover have "(if truthy (args ''title'') \<and> truthy (args ''season'') \<and> truthy (args ''episode'')
                   then invalid_number else missing_parameters) = invalid_number"
    using True by (rule if_P)
  ultimately show ?thesis by (intro exI[of _ invalid_number]) (simp only: simp_thms)
qed

text \<open>
  Claim C10. A request whose title is the empty string is answered as one without a
  title: 400 with the dictionary for missing parameters, and \<open>fetch_video_url\<close> is
  not invoked (the run has no event and the environment is left as it was).
\<close>

theorem empty_title_is_missing:
  assumes "args ''title'' = Some []"
  shows "get_video_url env args w = ((missing_parameters, 400), [], w) \<and>
         get_video_url env args w = get_video_url env (args(''title'' := None)) w"
  using assms by (simp add: get_video_url_def truthy_def)

section \<open>Runs on the example environments\<close>

lemma run_match_app:
  "app_fetch_video_url (match_after 3) ''Naruto'' ''1'' ''5'' 0 =
     (found_result ''https://play.zephyrflick.top/video/a1B2-c3_d4'',
      (Fetch_video_url ''Naruto'' ''1'' ''5'' # prologue ''firefox'' app_user_agent @
         visits (take 3 (app_candidates ''Naruto'' ''1'' ''5''))) @
      Captured ''https://play.zephyrflick.top/video/a1B2-c3_d4'' # epilogue, 3)"
  by code_simp

lemma run_match_video:
  "video_fetch_video_url (match_after 3) ''Naruto'' ''1'' ''5'' 0 =
     (found_result ''https://play.zephyrflick.top/video/a1B2-c3_d4'',
      (Fetch_video_url ''Naruto'' ''1'' ''5'' # prologue ''chromium'' video_user_agent @
         visits (take 3 (video_candidates ''Naruto'' ''1'' ''5''))) @
      Captured ''https://play.zephyrflick.top/video/a1B2-c3_d4'' # epilogue, 3)"
  by code_simp

lemma run_plain:
  "app_scan plain_site ''Naruto'' ''1'' ''5'' 0 =
     (Inr not_found_result,
      prologue ''firefox'' app_user_agent @ visits (app_candidates ''Naruto'' ''1'' ''5'') @ epilogue,
      8)"
  by code_simp

lemma run_launch_fails:
  "app_scan (launch_fails msg) t s e 0 =
     (Inl msg, [Playwright Sync_playwright_enter, Playwright (Launch ''firefox'' True),
                Playwright Sync_playwright_exit], 0)"
  by (simp add: app_scan_def with_sync_playwright_def page_scan_def and_then_def perform_def
      launch_fails_def quiet_def Let_def)

lemma naruto_passes: "passes_validation naruto_request ''Naruto'' ''1'' ''5''"
  by code_simp

text \<open>
  On \<open>match_after 3\<close> the match arrives while the third candidate is processed
  (\<open>k = 2\<close>): candidates four to eight are not visited, in either file.
\<close>

theorem short_circuit_witness:
  "app_fetch_video_url (match_after 3) ''Naruto'' ''1'' ''5'' 0 =
     (found_result ''https://play.zephyrflick.top/video/a1B2-c3_d4'',
      (Fetch_video_url ''Naruto'' ''1'' ''5'' # prologue ''firefox'' app_user_agent @
         visits (take 3 (app_candidates ''Naruto'' ''1'' ''5''))) @
      Captured ''https://play.zephyrflick.top/video/a1B2-c3_d4'' # epilogue, 3) \<and>
   navigated epilogue = [] \<and>
   navigated ((Fetch_video_url ''Naruto'' ''1'' ''5'' # prologue ''firefox'' app_user_agent @
         visits (take 3 (app_candidates ''Naruto'' ''1'' ''5''))) @
      Captured ''https://play.zephyrflick.top/video/a1B2-c3_d4'' # epilogue) =
     take 3 (app_candidates ''Naruto'' ''1'' ''5'') \<and>
   navigated ((Fetch_video_url ''Naruto'' ''1'' ''5'' # prologue ''chromium'' video_user_agent @
         visits (take 3 (video_candidates ''Naruto'' ''1'' ''5''))) @
      Captured ''https://play.zephyrflick.top/video/a1B2-c3_d4'' # epilogue) =
     take 3 (video_candidates ''Naruto'' ''1'' ''5'')"
proof -
  have na: "length (navigated (Fetch_video_url ''Naruto'' ''1'' ''5'' #
      prologue ''firefox'' app_user_agent @
      visits (take 3 (app_candidates ''Naruto'' ''1'' ''5'')))) = Suc 2"
    by code_simp
  have nv: "length (navigated (Fetch_video_url ''Naruto'' ''1'' ''5'' #
      prologue ''chromium'' video_user_agent @
      visits (take 3 (video_candidates ''Naruto'' ''1'' ''5'')))) = Suc 2"
    by code_simp
  have three: "Suc 2 = 3" by simp
  from short_circuit[OF disjI1[OF conjI[OF run_match_app refl]] refl na]
    short_circuit[OF disjI2[OF conjI[OF run_match_video refl]] refl nv]
    run_match_app
  show ?thesis unfolding three by blast
qed

text \<open>On \<open>plain_site\<close> all eight candidates are visited and nothing is captured.\<close>

theorem not_found_is_404_witness:
  "app_scan plain_site ''Naruto'' ''1'' ''5'' 0 =
     (Inr not_found_result,
      prologue ''firefox'' app_user_agent @ visits (app_candidates ''Naruto'' ''1'' ''5'') @ epilogue,
      8) \<and>
   \<not> captured (prologue ''firefox'' app_user_agent @
                visits (app_candidates ''Naruto'' ''1'' ''5'') @ epilogue) \<and>
   passes_validation naruto_request ''Naruto'' ''1'' ''5'' \<and>
   get_video_url plain_site naruto_request 0 =
     ((not_found_result, 404),
      Fetch_video_url ''Naruto'' ''1'' ''5'' # prologue ''firefox'' app_user_agent @
        visits (app_candidates ''Naruto'' ''1'' ''5'') @ epilogue, 8)"
proof -
  have c: "\<not> captured (prologue ''firefox'' app_user_agent @
                visits (app_candidates ''Naruto'' ''1'' ''5'') @ epilogue)"
    by code_simp
  from not_found_is_404[OF run_plain c, where args = naruto_request] naruto_passes run_plain c
  show ?thesis by blast
qed

text \<open>A launch that fails with \<open>Executable does not exist\<close> gives the status 500.\<close>

lemma launch_failure_answered_500:
  "app_scan (launch_fails ''Executable does not exist'') ''Naruto'' ''1'' ''5'' 0 =
     (Inl ''Executable does not exist'',
      [Playwright Sync_playwright_enter, Playwright (Launch ''firefox'' True),
       Playwright Sync_playwright_exit], 0) \<and>
   passes_validation naruto_request ''Naruto'' ''1'' ''5'' \<and>
   get_video_url (launch_fails ''Executable does not exist'') naruto_request 0 =
     ((error_result ''Executable does not exist'', 500),
      [Fetch_video_url ''Naruto'' ''1'' ''5'', Playwright Sync_playwright_enter,
       Playwright (Launch ''firefox'' True), Playwright Sync_playwright_exit], 0)"
proof -
  have n: "\<not> py_contains ''No video URL found''
             (''An error occurred: '' @ ''Executable does not exist'')"
    by code_simp
  from scan_exception_status[OF run_launch_fails, where args = naruto_request] naruto_passes n
    run_launch_fails[of "''Executable does not exist''" "''Naruto''" "''1''" "''5''"]
  show ?thesis by (simp only: simp_thms if_False)
qed

text \<open>
  Claim C3. An exception raised outside the navigation \<open>try\<close> is to be answered with
  500, never with 404. The code at a launch that fails with \<open>missing_browser\<close>: the
  exception reaches the handler, the error of the dictionary embeds its text, the
  text holds \<open>No video URL found\<close>, and the endpoint answers 404.
\<close>

theorem launch_failure_answered_404:
  "app_scan (launch_fails missing_browser) ''Naruto'' ''1'' ''5'' 0 =
     (Inl missing_browser,
      [Playwright Sync_playwright_enter, Playwright (Launch ''firefox'' True),
       Playwright Sync_playwright_exit], 0) \<and>
   passes_validation naruto_request ''Naruto'' ''1'' ''5'' \<and>
   get_video_url (launch_fails missing_browser) naruto_request 0 =
     ((error_result missing_browser, 404),
      [Fetch_video_url ''Naruto'' ''1'' ''5'', Playwright Sync_playwright_enter,
       Playwright (Launch ''firefox'' True), Playwright Sync_playwright_exit], 0)"
  by code_simp

text \<open>The status of that answer, and the phrase in the error of the dictionary.\<close>

theorem launch_failure_answered_404_witness:
  "snd (fst (get_video_url (launch_fails missing_browser) naruto_request 0)) = 404 \<and>
   py_contains ''No video URL found'' (''An error occurred: '' @ missing_browser)"
proof -
  have "py_contains ''No video URL found'' (''An error occurred: '' @ missing_browser)"
    by code_simp
  with launch_failure_answered_404 show ?thesis by simp
qed

text \<open>A run that finds a video (of \<open>video.py\<close>) and one that raises (of \<open>app.py\<close>).\<close>

theorem result_fully_populated_witness:
  "success (found_result ''https://play.zephyrflick.top/video/a1B2-c3_d4'') \<and>
   video_url (found_result ''https://play.zephyrflick.top/video/a1B2-c3_d4'') \<noteq> None \<and>
   error (found_result ''https://play.zephyrflick.top/video/a1B2-c3_d4'') = None \<and>
   fst (video_fetch_video_url (match_after 3) ''Naruto'' ''1'' ''5'' 0) =
     found_result ''https://play.zephyrflick.top/video/a1B2-c3_d4'' \<and>
   fst (app_fetch_video_url (launch_fails ''Executable does not exist'') ''Naruto'' ''1'' ''5'' 0) =
     error_result ''Executable does not exist'' \<and>
   \<not> success (error_result ''Executable does not exist'') \<and>
   error (error_result ''Executable does not exist'') \<noteq> None \<and>
   video_url (error_result ''Executable does not exist'') = None"
proof -
  have s: "success (found_result ''https://play.zephyrflick.top/video/a1B2-c3_d4'')"
    by (simp add: found_result_def)
  have f: "app_fetch_video_url (launch_fails ''Executable does not exist'') ''Naruto'' ''1'' ''5'' 0 =
      (error_result ''Executable does not exist'',
       Fetch_video_url ''Naruto'' ''1'' ''5'' #
         [Playwright Sync_playwright_enter, Playwright (Launch ''firefox'' True),
          Playwright Sync_playwright_exit], 0)"
    by (simp add: app_fetch_video_url_def run_launch_fails)
  have n: "\<not> success (error_result ''Executable does not exist'')"
    by (simp add: error_result_def)
  from result_fully_populated[OF disjI2[OF run_match_video]]
    result_fully_populated[OF disjI1[OF f]] s n run_match_video f
  show ?thesis by simp
qed

text \<open>\<open>/api/video?title=Naruto&season=abc&episode=5\<close>\<close>

theorem invalid_number_is_400_witness:
  "py_int ''abc'' = Inl ValueError \<and>
   get_video_url plain_site [''title'' \<mapsto> ''Naruto'', ''season'' \<mapsto> ''abc'', ''episode'' \<mapsto> ''5''] 0 =
     ((invalid_number, 400), [], 0)"
proof -
  let ?args = "[''title'' \<mapsto> ''Naruto'', ''season'' \<mapsto> ''abc'', ''episode'' \<mapsto> ''5'']"
  have p: "py_int ''abc'' = Inl ValueError" by code_simp
  have h: "(\<exists>s. ?args ''season'' = Some s \<and> py_int s = Inl ValueError) \<or>
           (\<exists>e. ?args ''episode'' = Some e \<and> py_int e = Inl ValueError)"
    using p by simp
  have t: "truthy (?args ''title'') \<and> truthy (?args ''season'') \<and> truthy (?args ''episode'')"
    by (simp add: truthy_def)
  from invalid_number_is_400[where args = ?args and env = plain_site and w = 0, OF h] t p show ?thesis
    by (simp only: if_True simp_thms) blast
qed

text \<open>
  Claim C7 as it was stated (the message is always the one for an invalid season or
  episode) fails on \<open>/api/video?season=abc\<close>: the title is missing, and the answer is
  the one for missing parameters.
\<close>

theorem invalid_number_message_counterexample:
  "py_int ''abc'' = Inl ValueError \<and>
   get_video_url plain_site [''season'' \<mapsto> ''abc''] 0 = ((missing_parameters, 400), [], 0) \<and>
   error missing_parameters = Some ''Missing required parameters: title, season, episode'' \<and>
   missing_parameters \<noteq> invalid_number"
  by code_simp

text \<open>\<open>/api/video?title=&season=1&episode=5\<close> and \<open>/api/video?season=1&episode=5\<close>\<close>

theorem empty_title_is_missing_witness:
  "get_video_url plain_site [''title'' \<mapsto> '''', ''season'' \<mapsto> ''1'', ''episode'' \<mapsto> ''5''] 0 =
     ((missing_parameters, 400), [], 0) \<and>
   get_video_url plain_site [''season'' \<mapsto> ''1'', ''episode'' \<mapsto> ''5''] 0 =
     ((missing_parameters, 400), [], 0)"
proof -
  let ?args = "[''title'' \<mapsto> '''', ''season'' \<mapsto> ''1'', ''episode'' \<mapsto> ''5'']"
  have h: "?args ''title'' = Some []" by simp
  have e: "?args(''title'' := None) = [''season'' \<mapsto> ''1'', ''episode'' \<mapsto> ''5'']"
    by (rule ext) simp
  from empty_title_is_missing[where args = ?args and env = plain_site and w = 0, OF h]
  show ?thesis unfolding e by metis
qed

end
